theory Spec2Isabelle
  imports Complex_Main "HOL-Library.Monad_Syntax"
begin

section \<open>Basic types\<close>

text \<open>
  \<^verbatim>\<open>real_type\<close> is modelled by the HOL reals and \<^verbatim>\<open>Real3\<close> by triples of reals.
  An \<^verbatim>\<open>OpaqueId\<close> is an optional index: \<open>None\<close> is the default-constructed (invalid) id,
  and the conversion to \<^verbatim>\<open>bool\<close> is \<open>id \<noteq> None\<close>.
  Arithmetic is exact: the rounding of the floating-point operations is not modelled.
  The assertion macros \<^verbatim>\<open>CELER_EXPECT\<close>, \<^verbatim>\<open>CELER_ASSERT\<close> and \<^verbatim>\<open>CELER_ENSURE\<close> expand to
  nothing in a release build (\<^verbatim>\<open>CELERITAS_DEBUG = 0\<close>), which is the build modelled here;
  where a theorem relies on a condition that they state, the condition is one of its
  hypotheses.
\<close>

type_synonym real_type = real
type_synonym Real3 = "real \<times> real \<times> real"
type_synonym size_type = nat
type_synonym ThreadId = nat
type_synonym LevelId = nat
type_synonym VolumeId = "nat option"
type_synonym SurfaceId = "nat option"
type_synonym UniverseId = "nat option"

datatype Sense = inside | outside

datatype BoundaryResult = exiting | reentrant

text \<open>Modelled from the spec: \<^verbatim>\<open>flip_sense\<close> and \<^verbatim>\<open>flip_boundary\<close> (orange/OrangeTypes.hh is
  not among the sources) exchange the two values of their enumeration.\<close>

fun flip_sense :: "Sense \<Rightarrow> Sense" where
  "flip_sense inside = outside"
| "flip_sense outside = inside"

fun flip_boundary :: "BoundaryResult \<Rightarrow> BoundaryResult" where
  "flip_boundary exiting = reentrant"
| "flip_boundary reentrant = exiting"

text \<open>Modelled from the spec: the vector helpers of corecel/math/ArrayUtils.hh
  (\<^verbatim>\<open>dot_product\<close>, \<^verbatim>\<open>axpy\<close>, \<^verbatim>\<open>norm\<close>, \<^verbatim>\<open>normalize_direction\<close>), which are not among the
  sources. \<^verbatim>\<open>axpy(a, x, &y)\<close> stores \<open>a * x + y\<close> in \<open>y\<close>.\<close>

fun dot_product :: "Real3 \<Rightarrow> Real3 \<Rightarrow> real" where
  "dot_product (a1, a2, a3) (b1, b2, b3) = a1 * b1 + a2 * b2 + a3 * b3"

fun axpy :: "real \<Rightarrow> Real3 \<Rightarrow> Real3 \<Rightarrow> Real3" where
  "axpy a (x1, x2, x3) (y1, y2, y3) = (a * x1 + y1, a * x2 + y2, a * x3 + y3)"

definition norm3 :: "Real3 \<Rightarrow> real" where
  "norm3 v = sqrt (dot_product v v)"

fun normalize_direction :: "Real3 \<Rightarrow> Real3" where
  "normalize_direction (x1, x2, x3) =
     (let scale = 1 / norm3 (x1, x2, x3) in (x1 * scale, x2 * scale, x3 * scale))"

text \<open>\<^verbatim>\<open>detail::OnSurface\<close>: a surface id with the sense of the track on it; it converts to
  \<^verbatim>\<open>true\<close> when the id is valid.\<close>

record OnSurface =
  os_id :: SurfaceId
  os_sense :: Sense

definition no_surface :: OnSurface where
  "no_surface = \<lparr>os_id = None, os_sense = inside\<rparr>"

definition on_surface :: "OnSurface \<Rightarrow> bool" where
  "on_surface s = (os_id s \<noteq> None)"

record LocalState =
  ls_pos :: Real3
  ls_dir :: Real3
  ls_volume :: VolumeId
  ls_surface :: OnSurface

record Intersection =
  is_surface :: OnSurface
  is_distance :: real_type

record Initialization =
  in_volume :: VolumeId
  in_surface :: OnSurface

record Propagation =
  distance :: real_type
  boundary :: bool

section \<open>Geometry parameters and per-track state\<close>

text \<open>
  The parameter data read by the track view. The simple-unit tracker, the unit indexer's
  member functions and the constants \<^verbatim>\<open>max_level\<close>, \<^verbatim>\<open>top_universe_id()\<close> and
  \<^verbatim>\<open>no_intersection()\<close> are declared outside the sources at hand, so they are parameters:
  \<open>tr_intersect u\<close>, \<open>tr_cross_boundary u\<close> and \<open>tr_normal u\<close> are the operations of the
  tracker built by \<^verbatim>\<open>make_tracker(u)\<close>; \<open>daughter v\<close> is
  \<^verbatim>\<open>params_.volume_records[v].daughter\<close>.
\<close>

record OrangeParams =
  max_level :: nat
  top_universe_id :: UniverseId
  no_intersection :: real_type
  daughter :: "VolumeId \<Rightarrow> UniverseId"
  global_surface :: "UniverseId \<Rightarrow> SurfaceId \<Rightarrow> SurfaceId"
  local_volume :: "VolumeId \<Rightarrow> VolumeId"
  tr_intersect :: "UniverseId \<Rightarrow> LocalState \<Rightarrow> real_type \<Rightarrow> Intersection"
  tr_cross_boundary :: "UniverseId \<Rightarrow> LocalState \<Rightarrow> Initialization"
  tr_normal :: "UniverseId \<Rightarrow> Real3 \<Rightarrow> SurfaceId \<Rightarrow> Real3"

text \<open>\<^verbatim>\<open>OrangeStateData\<close>: flat arrays indexed by \<open>thread * max_level + level\<close>, and the
  per-thread current level. The arrays are shared by all track views.\<close>

record OrangeStateData =
  st_vol :: "nat \<Rightarrow> VolumeId"
  st_pos :: "nat \<Rightarrow> Real3"
  st_dir :: "nat \<Rightarrow> Real3"
  st_universe :: "nat \<Rightarrow> UniverseId"
  st_surf :: "nat \<Rightarrow> SurfaceId"
  st_sense :: "nat \<Rightarrow> Sense"
  st_boundary :: "nat \<Rightarrow> BoundaryResult"
  st_level :: "ThreadId \<Rightarrow> LevelId"
  st_next_level :: "ThreadId \<Rightarrow> LevelId"

text \<open>An \<^verbatim>\<open>OrangeTrackView\<close>: the shared state arrays, the thread of this view and the two
  members \<^verbatim>\<open>next_step_\<close> and \<^verbatim>\<open>next_surface_\<close>.\<close>

record OrangeTrackView =
  states :: OrangeStateData
  thread :: ThreadId
  next_step :: real_type
  next_surface :: OnSurface

subsection \<open>LevelStateAccessor\<close>

definition lsa_index :: "OrangeParams \<Rightarrow> ThreadId \<Rightarrow> LevelId \<Rightarrow> nat" where
  "lsa_index p t l = t * max_level p + l"

definition set_vol :: "nat \<Rightarrow> VolumeId \<Rightarrow> OrangeStateData \<Rightarrow> OrangeStateData" where
  "set_vol i x s = s\<lparr>st_vol := (st_vol s)(i := x)\<rparr>"

definition set_pos :: "nat \<Rightarrow> Real3 \<Rightarrow> OrangeStateData \<Rightarrow> OrangeStateData" where
  "set_pos i x s = s\<lparr>st_pos := (st_pos s)(i := x)\<rparr>"

definition set_dir_lsa :: "nat \<Rightarrow> Real3 \<Rightarrow> OrangeStateData \<Rightarrow> OrangeStateData" where
  "set_dir_lsa i x s = s\<lparr>st_dir := (st_dir s)(i := x)\<rparr>"

definition set_surf :: "nat \<Rightarrow> SurfaceId \<Rightarrow> OrangeStateData \<Rightarrow> OrangeStateData" where
  "set_surf i x s = s\<lparr>st_surf := (st_surf s)(i := x)\<rparr>"

definition set_sense :: "nat \<Rightarrow> Sense \<Rightarrow> OrangeStateData \<Rightarrow> OrangeStateData" where
  "set_sense i x s = s\<lparr>st_sense := (st_sense s)(i := x)\<rparr>"

definition set_boundary :: "nat \<Rightarrow> BoundaryResult \<Rightarrow> OrangeStateData \<Rightarrow> OrangeStateData" where
  "set_boundary i x s = s\<lparr>st_boundary := (st_boundary s)(i := x)\<rparr>"

subsection \<open>OrangeTrackView: accessors and helpers\<close>

text \<open>\<^verbatim>\<open>make_lsa()\<close>: the index of the accessor for this thread at its current level.\<close>

definition make_lsa :: "OrangeParams \<Rightarrow> OrangeTrackView \<Rightarrow> nat" where
  "make_lsa p v = lsa_index p (thread v) (st_level (states v) (thread v))"

definition pos :: "OrangeParams \<Rightarrow> OrangeTrackView \<Rightarrow> Real3" where
  "pos p v = st_pos (states v) (make_lsa p v)"

definition dir :: "OrangeParams \<Rightarrow> OrangeTrackView \<Rightarrow> Real3" where
  "dir p v = st_dir (states v) (make_lsa p v)"

definition volume_id :: "OrangeParams \<Rightarrow> OrangeTrackView \<Rightarrow> VolumeId" where
  "volume_id p v = st_vol (states v) (make_lsa p v)"

definition surface_id :: "OrangeParams \<Rightarrow> OrangeTrackView \<Rightarrow> SurfaceId" where
  "surface_id p v = st_surf (states v) (make_lsa p v)"

definition is_on_boundary :: "OrangeParams \<Rightarrow> OrangeTrackView \<Rightarrow> bool" where
  "is_on_boundary p v = (surface_id p v \<noteq> None)"

definition has_next_step :: "OrangeTrackView \<Rightarrow> bool" where
  "has_next_step v = (next_step v \<noteq> 0)"

text \<open>\<^verbatim>\<open>clear_next_step\<close>: in a release build only \<^verbatim>\<open>next_step_\<close> is reset; the assignment
  to \<^verbatim>\<open>next_surface_\<close> is inside \<^verbatim>\<open>#if CELERITAS_DEBUG\<close>.\<close>

definition clear_next_step :: "OrangeTrackView \<Rightarrow> OrangeTrackView" where
  "clear_next_step v = v\<lparr>next_step := 0\<rparr>"

definition upd_states :: "(OrangeStateData \<Rightarrow> OrangeStateData) \<Rightarrow> OrangeTrackView \<Rightarrow> OrangeTrackView"
  where "upd_states f v = v\<lparr>states := f (states v)\<rparr>"

definition make_local_state :: "OrangeParams \<Rightarrow> OrangeTrackView \<Rightarrow> LevelId \<Rightarrow> LocalState" where
  "make_local_state p v level =
     (let i = lsa_index p (thread v) level;
          s = states v
      in \<lparr>ls_pos = st_pos s i, ls_dir = st_dir s i,
          ls_volume = local_volume p (st_vol s i),
          ls_surface = \<lparr>os_id = st_surf s i, os_sense = st_sense s i\<rparr>\<rparr>)"

subsection \<open>OrangeTrackView: operations\<close>

text \<open>
  The loop of \<^verbatim>\<open>find_next_step_impl\<close>: a \<^verbatim>\<open>do ... while (check_uid != current_uid)\<close> over
  the universes from the top one downwards. Nothing in the source bounds the number of
  iterations, so the loop is a partial function: \<open>None\<close> is a loop that never exits.
\<close>

partial_function (option) find_next_step_loop ::
  "OrangeParams \<Rightarrow> OrangeTrackView \<Rightarrow> real_type \<Rightarrow> UniverseId \<Rightarrow> UniverseId \<Rightarrow> real_type
     \<Rightarrow> OnSurface \<Rightarrow> UniverseId \<Rightarrow> nat \<Rightarrow> (real_type \<times> OnSurface \<times> UniverseId) option"
where
  "find_next_step_loop p v max_step current_uid next_check_uid min_step min_surface_local
       min_uid level =
     (let check_uid = next_check_uid;
          isect = tr_intersect p check_uid (make_local_state p v level) max_step;
          hit = (is_distance isect < min_step);
          min_step' = (if hit then is_distance isect else min_step);
          min_surface_local' = (if hit then is_surface isect else min_surface_local);
          min_uid' = (if hit then check_uid else min_uid);
          next_check_uid' = daughter p (st_vol (states v) (lsa_index p (thread v) level))
      in if check_uid \<noteq> current_uid
         then find_next_step_loop p v max_step current_uid next_check_uid' min_step'
                min_surface_local' min_uid' (level + 1)
         else Some (min_step', min_surface_local', min_uid'))"

definition find_next_step_impl ::
  "OrangeParams \<Rightarrow> OrangeTrackView \<Rightarrow> real_type \<Rightarrow> OrangeTrackView option" where
  "find_next_step_impl p v max_step =
     do {
       (min_step, min_surface_local, min_uid) \<leftarrow>
         find_next_step_loop p v max_step (st_universe (states v) (make_lsa p v))
           (top_universe_id p) max_step no_surface None 0;
       Some (v\<lparr>next_step := min_step,
               next_surface :=
                 (if min_uid \<noteq> None
                  then \<lparr>os_id = global_surface p min_uid (os_id min_surface_local),
                        os_sense = os_sense min_surface_local\<rparr>
                  else min_surface_local)\<rparr>)
     }"

text \<open>
  The universes the loop of \<^verbatim>\<open>find_next_step_impl\<close> visits: \<open>check_uid p v n\<close> is the value of
  \<^verbatim>\<open>check_uid\<close> in pass \<open>n\<close> (the top universe first, then the daughter of the volume
  recorded one level up), and \<open>level_intersection p v max_step n\<close> is what the tracker of that
  universe answers in that pass. \<open>closer\<close> is the update of the running minimum in one pass.
\<close>

definition check_uid :: "OrangeParams \<Rightarrow> OrangeTrackView \<Rightarrow> nat \<Rightarrow> UniverseId" where
  "check_uid p v n =
     (if n = 0 then top_universe_id p
      else daughter p (st_vol (states v) (lsa_index p (thread v) (n - 1))))"

definition level_intersection ::
  "OrangeParams \<Rightarrow> OrangeTrackView \<Rightarrow> real_type \<Rightarrow> nat \<Rightarrow> Intersection" where
  "level_intersection p v max_step n =
     tr_intersect p (check_uid p v n) (make_local_state p v n) max_step"

definition closer ::
  "OrangeParams \<Rightarrow> OrangeTrackView \<Rightarrow> real_type \<Rightarrow> nat
     \<Rightarrow> real_type \<times> OnSurface \<times> UniverseId \<Rightarrow> real_type \<times> OnSurface \<times> UniverseId" where
  "closer p v max_step n best =
     (if is_distance (level_intersection p v max_step n) < fst best
      then (is_distance (level_intersection p v max_step n),
            is_surface (level_intersection p v max_step n), check_uid p v n)
      else best)"

text \<open>\<^verbatim>\<open>find_next_step()\<close>: the result and the updated view.\<close>

definition find_next_step ::
  "OrangeParams \<Rightarrow> OrangeTrackView \<Rightarrow> (Propagation \<times> OrangeTrackView) option" where
  "find_next_step p v =
     (if st_boundary (states v) (make_lsa p v) = reentrant
      then Some (\<lparr>distance = 0, boundary = True\<rparr>, v)
      else do {
        let v1 = (if \<not> on_surface (next_surface v) \<and> next_step v \<noteq> no_intersection p
                  then clear_next_step v else v);
        v2 \<leftarrow> (if \<not> has_next_step v1 then find_next_step_impl p v1 (no_intersection p)
               else Some v1);
        Some (\<lparr>distance = next_step v2, boundary = on_surface (next_surface v2)\<rparr>, v2)
      })"

text \<open>\<^verbatim>\<open>find_next_step(real_type max_step)\<close>.\<close>

definition find_next_step_max ::
  "OrangeParams \<Rightarrow> OrangeTrackView \<Rightarrow> real_type \<Rightarrow> (Propagation \<times> OrangeTrackView) option"
where
  "find_next_step_max p v max_step =
     (if st_boundary (states v) (make_lsa p v) = reentrant
      then Some (\<lparr>distance = 0, boundary = True\<rparr>, v)
      else if next_step v > max_step
      then Some (\<lparr>distance = max_step, boundary = False\<rparr>, v)
      else do {
        let v1 = (if \<not> on_surface (next_surface v) \<and> next_step v < max_step
                  then clear_next_step v else v);
        v2 \<leftarrow> (if \<not> has_next_step v1 then find_next_step_impl p v1 max_step else Some v1);
        Some (\<lparr>distance = next_step v2, boundary = on_surface (next_surface v2)\<rparr>, v2)
      })"

definition move_to_boundary :: "OrangeParams \<Rightarrow> OrangeTrackView \<Rightarrow> OrangeTrackView" where
  "move_to_boundary p v =
     (let i = make_lsa p v;
          s = states v;
          new_pos = axpy (next_step v) (st_dir s i) (st_pos s i)
      in clear_next_step
           (upd_states (set_sense i (os_sense (next_surface v)) \<circ>
                        set_surf i (os_id (next_surface v)) \<circ>
                        set_pos i new_pos) v))"

text \<open>\<^verbatim>\<open>move_internal(real_type dist)\<close>.\<close>

definition move_internal_dist ::
  "OrangeParams \<Rightarrow> OrangeTrackView \<Rightarrow> real_type \<Rightarrow> OrangeTrackView" where
  "move_internal_dist p v dst =
     (let i = make_lsa p v;
          s = states v;
          new_pos = axpy dst (st_dir s i) (st_pos s i);
          v1 = upd_states (set_pos i new_pos) v;
          v2 = v1\<lparr>next_step := next_step v1 - dst\<rparr>
      in upd_states (set_surf i None) v2)"

text \<open>\<^verbatim>\<open>move_internal(Real3 const& pos)\<close>.\<close>

definition move_internal :: "OrangeParams \<Rightarrow> OrangeTrackView \<Rightarrow> Real3 \<Rightarrow> OrangeTrackView" where
  "move_internal p v new_pos =
     (let i = make_lsa p v
      in clear_next_step (upd_states (set_surf i None \<circ> set_pos i new_pos) v))"

text \<open>\<^verbatim>\<open>cross_boundary\<close>. With \<^verbatim>\<open>CELERITAS_DEBUG = 0\<close> a failed crossing (no volume found)
  falls back to the exterior volume with no surface.\<close>

definition cross_boundary :: "OrangeParams \<Rightarrow> OrangeTrackView \<Rightarrow> OrangeTrackView" where
  "cross_boundary p v =
     (let i = make_lsa p v;
          s = states v
      in if st_boundary s i = reentrant
         then upd_states (set_boundary i exiting) v
         else
           let local = \<lparr>ls_pos = pos p v, ls_dir = dir p v, ls_volume = st_vol s i,
                        ls_surface = \<lparr>os_id = st_surf s i,
                                      os_sense = flip_sense (st_sense s i)\<rparr>\<rparr>;
               init0 = tr_cross_boundary p (Some 0) local;
               init = (if in_volume init0 = None
                       then \<lparr>in_volume = Some 0, in_surface = no_surface\<rparr> else init0)
           in upd_states (set_boundary i exiting \<circ>
                          set_sense i (os_sense (in_surface init)) \<circ>
                          set_surf i (os_id (in_surface init)) \<circ>
                          set_vol i (in_volume init)) v)"

definition set_dir :: "OrangeParams \<Rightarrow> OrangeTrackView \<Rightarrow> Real3 \<Rightarrow> OrangeTrackView" where
  "set_dir p v newdir =
     (let i = make_lsa p v;
          v1 = (if is_on_boundary p v
                then
                  let normal = tr_normal p (Some 0) (pos p v) (surface_id p v)
                  in if (dot_product normal newdir \<ge> 0) \<noteq> (dot_product normal (dir p v) \<ge> 0)
                     then upd_states (set_boundary i (flip_boundary (st_boundary (states v) i))) v
                     else v
                else v)
      in clear_next_step (upd_states (set_dir_lsa i newdir) v1))"

text \<open>Assignment from a \<^verbatim>\<open>DetailedInitializer\<close>: \<open>di_other\<close> is the parent's view (over the
  same state arrays), \<open>di_dir\<close> the new direction. The body of the loop copies one level;
  \<^verbatim>\<open>range(n)\<close> runs over \<open>0, ..., n - 1\<close>.\<close>

record DetailedInitializer =
  di_other :: OrangeTrackView
  di_dir :: Real3

definition copy_level :: "OrangeParams \<Rightarrow> ThreadId \<Rightarrow> ThreadId \<Rightarrow> nat \<Rightarrow> OrangeStateData
     \<Rightarrow> OrangeStateData" where
  "copy_level p t t_other i s =
     (let lsa = lsa_index p t i;
          lsa_other = lsa_index p t_other i;
          s1 = set_vol lsa (st_vol s lsa_other) s;
          s2 = set_pos lsa (st_pos s1 lsa_other) s1;
          s3 = set_dir_lsa lsa (st_dir s2 lsa_other) s2;
          s4 = set_surf lsa (st_surf s3 lsa_other) s3;
          s5 = set_sense lsa (st_sense s4 lsa_other) s4
      in set_boundary lsa (st_boundary s5 lsa_other) s5)"

definition assign_detailed ::
  "OrangeParams \<Rightarrow> OrangeTrackView \<Rightarrow> DetailedInitializer \<Rightarrow> OrangeTrackView" where
  "assign_detailed p v init =
     (let t = thread v;
          t_other = thread (di_other init);
          s0 = states v;
          s1 = fold (copy_level p t t_other) [0..<st_level s0 t_other] s0;
          s2 = s1\<lparr>st_level := (st_level s1)(t := st_level s1 t_other)\<rparr>;
          s3 = s2\<lparr>st_next_level := (st_next_level s2)(t := st_next_level s2 t_other)\<rparr>
      in clear_next_step (v\<lparr>states := s3\<rparr>))"

section \<open>Rectilinear-array tracker\<close>

text \<open>
  Modelled from the spec: \<^verbatim>\<open>NonuniformGrid\<close> (corecel/grid/NonuniformGrid.hh is not among the
  sources). A grid is the increasing sequence of its grid points; \<open>grid_front\<close> and
  \<open>grid_back\<close> are its first and last points; \<open>grid_find g v\<close> is the index of the bin that
  holds \<open>v\<close>: the lower bound of \<open>v\<close> (the first index whose point is not below \<open>v\<close>), moved
  back by one when \<open>v\<close> is not that grid point.
\<close>

type_synonym Grid = "real list"

definition grid_front :: "Grid \<Rightarrow> real" where
  "grid_front g = g ! 0"

definition grid_back :: "Grid \<Rightarrow> real" where
  "grid_back g = g ! (length g - 1)"

definition lower_bound :: "Grid \<Rightarrow> real \<Rightarrow> nat" where
  "lower_bound g v = length (takeWhile (\<lambda>x. x < v) g)"

definition grid_find :: "Grid \<Rightarrow> real \<Rightarrow> nat" where
  "grid_find g v = (let iter = lower_bound g v in if v \<noteq> g ! iter then iter - 1 else iter)"

text \<open>
  Modelled from the spec: the indexers of corecel/data (\<^verbatim>\<open>HyperslabIndexer\<close>,
  \<^verbatim>\<open>HyperslabInverseIndexer\<close>, \<^verbatim>\<open>RaggedRightIndexer\<close>), which are not among the sources. Cells
  \<open>(i, j, k)\<close> are numbered in row-major order (the last axis varies fastest), grid planes
  \<open>(axis, index)\<close> axis by axis. An \<^verbatim>\<open>Array<T, 3>\<close> of sizes or coordinates is a list of
  three entries.
\<close>

type_synonym Coords = "nat list"

definition hyperslab_index :: "nat list \<Rightarrow> Coords \<Rightarrow> nat" where
  "hyperslab_index dims c = (c ! 0 * dims ! 1 + c ! 1) * dims ! 2 + c ! 2"

definition hyperslab_inverse :: "nat list \<Rightarrow> nat \<Rightarrow> Coords" where
  "hyperslab_inverse dims i =
     [i div (dims ! 2) div (dims ! 1), i div (dims ! 2) mod (dims ! 1), i mod (dims ! 2)]"

definition ragged_right_index :: "nat list \<Rightarrow> nat \<times> nat \<Rightarrow> nat" where
  "ragged_right_index sizes ai = sum_list (take (fst ai) sizes) + snd ai"

text \<open>Component \<open>ax\<close> of a \<^verbatim>\<open>Real3\<close> (\<^verbatim>\<open>operator[]\<close>), for \<open>ax\<close> in \<open>0, 1, 2\<close>.\<close>

fun real3_at :: "Real3 \<Rightarrow> nat \<Rightarrow> real" where
  "real3_at (x, y, z) ax = (if ax = 0 then x else if ax = 1 then y else z)"

text \<open>
  The data of a \<^verbatim>\<open>RectArrayTracker\<close>: the three grids of its record (each the slice of
  \<^verbatim>\<open>params_.reals\<close> the record names) and the background volume. \<open>rt_infinity\<close> stands for
  \<^verbatim>\<open>numeric_limits<real_type>::infinity()\<close>, the distance of a default-constructed
  \<^verbatim>\<open>Intersection\<close>; the HOL reals have no infinite value, so it is a parameter, and no
  theorem below depends on its value.
\<close>

record RectArrayTracker =
  rt_grid :: "Grid list"
  rt_background :: VolumeId
  rt_infinity :: real_type

definition dims :: "RectArrayTracker \<Rightarrow> nat list" where
  "dims r = map (\<lambda>ax. length (rt_grid r ! ax) - 1) [0, 1, 2]"

definition surface_indexer_sizes :: "RectArrayTracker \<Rightarrow> nat list" where
  "surface_indexer_sizes r = [dims r ! 0 + 1, dims r ! 1 + 1, dims r ! 2 + 1]"

text \<open>The loop over the axes in \<^verbatim>\<open>initialize\<close>: \<open>Inl\<close> is an early return, \<open>Inr\<close> the
  coordinates once every axis is done.\<close>

fun initialize_axes ::
  "RectArrayTracker \<Rightarrow> LocalState \<Rightarrow> nat list \<Rightarrow> Coords \<Rightarrow> Initialization + Coords" where
  "initialize_axes r state [] coords = Inr coords"
| "initialize_axes r state (ax # axes) coords =
     (let x = real3_at (ls_pos state) ax;
          grid = rt_grid r ! ax
      in if x < grid_front grid \<or> x > grid_back grid
         then Inl \<lparr>in_volume = rt_background r, in_surface = no_surface\<rparr>
         else
           let index = grid_find grid x;
               edge = (grid ! index = x)
           in if \<not> edge
              then initialize_axes r state axes (coords[ax := index])
              else Inl \<lparr>in_volume = rt_background r, in_surface = no_surface\<rparr>)"

definition initialize :: "RectArrayTracker \<Rightarrow> LocalState \<Rightarrow> Initialization" where
  "initialize r state =
     (case initialize_axes r state [0, 1, 2] [0, 0, 0] of
        Inl early \<Rightarrow> early
      | Inr coords \<Rightarrow>
          \<lparr>in_volume = Some (hyperslab_index (dims r) coords), in_surface = no_surface\<rparr>)"

text \<open>\<^verbatim>\<open>safety\<close>: the loops over the axes and over the two planes of each axis.\<close>

definition safety :: "RectArrayTracker \<Rightarrow> Real3 \<Rightarrow> VolumeId \<Rightarrow> real_type" where
  "safety r x volid =
     (let coords = hyperslab_inverse (dims r) (the volid)
      in fold (\<lambda>ax min_dist.
                 fold (\<lambda>i min_dist.
                         let target_coord = coords ! ax + i;
                             target = rt_grid r ! ax ! target_coord
                         in min min_dist \<bar>real3_at x ax - target\<bar>)
                      [0, 1] min_dist)
              [0, 1, 2] (rt_infinity r))"

text \<open>One pass of the loop body of \<^verbatim>\<open>intersect_impl\<close>, for axis \<open>ax\<close>.\<close>

definition intersect_axis ::
  "RectArrayTracker \<Rightarrow> LocalState \<Rightarrow> Coords \<Rightarrow> nat \<Rightarrow> Intersection \<Rightarrow> Intersection" where
  "intersect_axis r state coords ax result =
     (let d = real3_at (ls_dir state) ax
      in if d = 0 then result
         else
           let target_coord = coords ! ax + (if d > 0 then 1 else 0);
               target_value = rt_grid r ! ax ! target_coord;
               dst = (target_value - real3_at (ls_pos state) ax) / d
           in if dst > 0 \<and> dst < is_distance result
              then \<lparr>is_surface =
                      \<lparr>os_id = Some (ragged_right_index (surface_indexer_sizes r)
                                       (ax, target_coord)),
                       os_sense = (if d > 0 then inside else outside)\<rparr>,
                    is_distance = dst\<rparr>
              else result)"

definition intersect_impl ::
  "RectArrayTracker \<Rightarrow> LocalState \<Rightarrow> (real_type \<Rightarrow> bool) \<Rightarrow> Intersection" where
  "intersect_impl r state is_valid =
     (let coords = hyperslab_inverse (dims r) (the (ls_volume state));
          empty = \<lparr>is_surface = no_surface, is_distance = rt_infinity r\<rparr>;
          result = fold (intersect_axis r state coords) [0, 1, 2] empty
      in if is_valid (is_distance result) then result else empty)"

text \<open>\<^verbatim>\<open>intersect(state)\<close>, with the validity test \<^verbatim>\<open>detail::IsFinite\<close>.\<close>

definition intersect :: "RectArrayTracker \<Rightarrow> LocalState \<Rightarrow> Intersection" where
  "intersect r state = intersect_impl r state (\<lambda>d. d \<noteq> rt_infinity r)"

text \<open>\<^verbatim>\<open>intersect(state, max_dist)\<close>, with the validity test \<^verbatim>\<open>detail::IsNotFurtherThan\<close>.\<close>

definition intersect_max :: "RectArrayTracker \<Rightarrow> LocalState \<Rightarrow> real_type \<Rightarrow> Intersection" where
  "intersect_max r state max_dist =
     (let result = intersect_impl r state (\<lambda>d. d \<le> max_dist)
      in if \<not> on_surface (is_surface result) then result\<lparr>is_distance := max_dist\<rparr>
         else result)"

text \<open>A position is off the cells along axis \<open>a\<close> when its coordinate is below the first
  grid point, above the last one, or on a grid point.\<close>

definition off_cell :: "RectArrayTracker \<Rightarrow> Real3 \<Rightarrow> nat \<Rightarrow> bool" where
  "off_cell r x a =
     (real3_at x a < grid_front (rt_grid r ! a) \<or> real3_at x a > grid_back (rt_grid r ! a)
      \<or> real3_at x a \<in> set (rt_grid r ! a))"

section \<open>Field propagator\<close>

record OdeState =
  ode_pos :: Real3
  ode_mom :: Real3

record DriverResult =
  dr_state :: OdeState
  dr_step :: real_type

text \<open>The driver is the template parameter \<^verbatim>\<open>DriverT\<close>: its \<^verbatim>\<open>advance\<close> member and the two
  tolerances the propagator reads.\<close>

record Driver =
  advance :: "real_type \<Rightarrow> OdeState \<Rightarrow> DriverResult"
  minimum_step :: real_type
  delta_intersection :: real_type

record Chord =
  ch_length :: real_type
  ch_dir :: Real3

text \<open>
  Modelled from the spec: the helpers of celeritas/field/detail/FieldUtils.hh (\<^verbatim>\<open>ax\<close>,
  \<^verbatim>\<open>make_chord\<close>, \<^verbatim>\<open>calc_miss_distance\<close>, \<^verbatim>\<open>is_intercept_close\<close>), which are not among the
  sources. The chord runs from the start of a substep to its end; the miss distance is the
  distance between the intercept (the point at \<open>distance\<close> along \<open>dir\<close> from \<open>pos\<close>) and the
  target; the intercept is close when that distance is within the tolerance.
\<close>

fun ax :: "real \<Rightarrow> Real3 \<Rightarrow> Real3" where
  "ax a (x1, x2, x3) = (a * x1, a * x2, a * x3)"

fun sub3 :: "Real3 \<Rightarrow> Real3 \<Rightarrow> Real3" where
  "sub3 (a1, a2, a3) (b1, b2, b3) = (a1 - b1, a2 - b2, a3 - b3)"

definition make_chord :: "Real3 \<Rightarrow> Real3 \<Rightarrow> Chord" where
  "make_chord src dst =
     (let d = sub3 dst src;
          len = norm3 d
      in \<lparr>ch_length = len, ch_dir = ax (1 / len) d\<rparr>)"

definition calc_miss_distance :: "Real3 \<Rightarrow> Real3 \<Rightarrow> real \<Rightarrow> Real3 \<Rightarrow> real" where
  "calc_miss_distance x0 d dst target = norm3 (sub3 (axpy dst d x0) target)"

definition is_intercept_close :: "Real3 \<Rightarrow> Real3 \<Rightarrow> real \<Rightarrow> Real3 \<Rightarrow> real \<Rightarrow> bool" where
  "is_intercept_close x0 d dst target tolerance =
     (calc_miss_distance x0 d dst target \<le> tolerance)"

text \<open>A \<^verbatim>\<open>FieldPropagator\<close>: the driver, the geometry track view it refers to, and the ODE
  state. The constructor reads the momentum magnitude of the particle.\<close>

record FieldPropagator =
  fp_driver :: Driver
  fp_geo :: OrangeTrackView
  fp_state :: OdeState

definition make_field_propagator ::
  "OrangeParams \<Rightarrow> Driver \<Rightarrow> real \<Rightarrow> OrangeTrackView \<Rightarrow> FieldPropagator" where
  "make_field_propagator p drv momentum geo =
     \<lparr>fp_driver = drv, fp_geo = geo,
      fp_state = \<lparr>ode_pos = pos p geo, ode_mom = ax momentum (dir p geo)\<rparr>\<rparr>"

definition max_substeps :: int where
  "max_substeps = 128"

definition bump_distance :: "Driver \<Rightarrow> real_type" where
  "bump_distance drv = minimum_step drv"

text \<open>The variables of \<^verbatim>\<open>operator()(real_type step)\<close> that live across the substep loop.\<close>

record Substepping =
  lp_result :: Propagation
  remaining :: real_type
  remaining_substeps :: int
  lp_state :: OdeState
  lp_geo :: OrangeTrackView

text \<open>
  The five cases at the end of the loop body, for the substep \<open>sub\<close> the driver proposes,
  its chord, the answer \<open>linear_step\<close> of the geometry along the chord, and the track view
  \<open>geo\<close> as the query leaves it.
\<close>

definition dispatch ::
  "OrangeParams \<Rightarrow> Driver \<Rightarrow> real_type \<Rightarrow> Substepping \<Rightarrow> DriverResult \<Rightarrow> Chord \<Rightarrow> Propagation
     \<Rightarrow> OrangeTrackView \<Rightarrow> Substepping" where
  "dispatch p drv step s sub chord linear_step geo =
     (if \<not> boundary linear_step then
        let st = dr_state sub;
            d = distance (lp_result s) + min (dr_step sub) (remaining s)
        in \<lparr>lp_result = \<lparr>distance = d, boundary = False\<rparr>,
            remaining = step - d,
            remaining_substeps = remaining_substeps s - 1,
            lp_state = st,
            lp_geo = move_internal p geo (ode_pos st)\<rparr>
      else if boundary (lp_result s) \<and> distance linear_step < bump_distance drv then
        s\<lparr>remaining := dr_step sub / 2, lp_geo := geo\<rparr>
      else if dr_step sub * distance linear_step \<le> minimum_step drv * ch_length chord then
        \<lparr>lp_result = \<lparr>distance = distance (lp_result s)
                                   + min (distance linear_step) (remaining s),
                      boundary = True\<rparr>,
         remaining = 0,
         remaining_substeps = remaining_substeps s,
         lp_state = (lp_state s)\<lparr>ode_mom := ode_mom (dr_state sub)\<rparr>,
         lp_geo = geo\<rparr>
      else if is_intercept_close (ode_pos (lp_state s)) (ch_dir chord) (distance linear_step)
                (ode_pos (dr_state sub)) (delta_intersection drv) then
        let miss_distance = calc_miss_distance (ode_pos (lp_state s)) (ch_dir chord)
                              (distance linear_step) (ode_pos (dr_state sub))
        in \<lparr>lp_result = \<lparr>distance = distance (lp_result s) + (dr_step sub - miss_distance),
                         boundary = True\<rparr>,
            remaining = 0,
            remaining_substeps = remaining_substeps s,
            lp_state = (lp_state s)\<lparr>ode_mom := ode_mom (dr_state sub)\<rparr>,
            lp_geo = geo\<rparr>
      else
        s\<lparr>remaining := dr_step sub * distance linear_step / ch_length chord,
          lp_geo := geo\<rparr>)"

text \<open>The body of the \<^verbatim>\<open>do ... while\<close> loop: the trial substep of the driver, its chord, the
  query of the geometry along the chord, and the dispatch.\<close>

definition substep :: "OrangeParams \<Rightarrow> Driver \<Rightarrow> real_type \<Rightarrow> Substepping \<Rightarrow> Substepping option"
where
  "substep p drv step s =
     do {
       let sub = advance drv (remaining s) (lp_state s);
       let chord = make_chord (ode_pos (lp_state s)) (ode_pos (dr_state sub));
       let geo1 = set_dir p (lp_geo s) (ch_dir chord);
       (linear_step, geo2) \<leftarrow>
         find_next_step_max p geo1 (ch_length chord + delta_intersection drv);
       Some (dispatch p drv step s sub chord linear_step geo2)
     }"

text \<open>The loop itself. The source gives no bound on the number of trials that do not commit
  a substep, so the loop is a partial function: \<open>None\<close> is a run that never leaves it.\<close>

partial_function (option) substep_loop ::
  "OrangeParams \<Rightarrow> Driver \<Rightarrow> real_type \<Rightarrow> Substepping \<Rightarrow> Substepping option" where
  "substep_loop p drv step s =
     do {
       s' \<leftarrow> substep p drv step s;
       if remaining s' \<ge> minimum_step drv \<and> remaining_substeps s' > 0
       then substep_loop p drv step s'
       else Some s'
     }"

text \<open>The code after the loop: the move to the boundary or the charge of the remainder, the
  new direction from the momentum, and the bump of a track that did not move.\<close>

definition finish_step :: "OrangeParams \<Rightarrow> Driver \<Rightarrow> real_type \<Rightarrow> Substepping \<Rightarrow> Substepping"
where
  "finish_step p drv step s =
     (let s1 = (if distance (lp_result s) > 0
                then if boundary (lp_result s)
                     then let g = move_to_boundary p (lp_geo s)
                          in s\<lparr>lp_geo := g, lp_state := (lp_state s)\<lparr>ode_pos := pos p g\<rparr>\<rparr>
                     else if remaining_substeps s > 0
                     then s\<lparr>lp_result := (lp_result s)\<lparr>distance := distance (lp_result s)
                                                                   + remaining s\<rparr>\<rparr>
                     else s
                else s);
          d = normalize_direction (ode_mom (lp_state s1));
          s2 = s1\<lparr>lp_geo := set_dir p (lp_geo s1) d\<rparr>
      in if distance (lp_result s2) = 0
         then
           let bump = min (bump_distance drv) step;
               st = (lp_state s2)\<lparr>ode_pos := axpy bump d (ode_pos (lp_state s2))\<rparr>
           in s2\<lparr>lp_result := \<lparr>distance = bump, boundary = False\<rparr>,
                 lp_state := st,
                 lp_geo := move_internal p (lp_geo s2) (ode_pos st)\<rparr>
         else s2)"

text \<open>The variables as \<^verbatim>\<open>operator()(real_type step)\<close> sets them before the loop.\<close>

definition initial_substepping :: "OrangeParams \<Rightarrow> FieldPropagator \<Rightarrow> real_type \<Rightarrow> Substepping"
where
  "initial_substepping p fp step =
     \<lparr>lp_result = \<lparr>distance = 0, boundary = is_on_boundary p (fp_geo fp)\<rparr>,
      remaining = step,
      remaining_substeps = max_substeps,
      lp_state = fp_state fp,
      lp_geo = fp_geo fp\<rparr>"

text \<open>\<^verbatim>\<open>operator()(real_type step)\<close>: the result, and the propagator with its updated members.\<close>

definition propagate ::
  "OrangeParams \<Rightarrow> FieldPropagator \<Rightarrow> real_type \<Rightarrow> (Propagation \<times> FieldPropagator) option" where
  "propagate p fp step =
     do {
       s \<leftarrow> substep_loop p (fp_driver fp) step (initial_substepping p fp step);
       let s' = finish_step p (fp_driver fp) step s;
       Some (lp_result s', fp\<lparr>fp_state := lp_state s', fp_geo := lp_geo s'\<rparr>)
     }"

subsection \<open>The passes of the loop\<close>

text \<open>
  Observers of a run of the loop, used to state which trial substeps are kept. \<open>trial\<close> is
  the substep the driver proposes at the top of a pass. \<open>substep_branch\<close> names the case that
  the chain of conditions at the end of the loop body selects: the substep is accepted (no
  boundary along the chord), halved (the track started on a surface and the boundary is
  closer than the bump distance), the track lands on the boundary (the next trial would
  be below the minimum step), the intercept is taken (it is close to the end of the
  substep), or the substep is shortened to the fraction of the chord and tried again.
  \<open>substep_case\<close> is the case of the pass that starts in a given state.
  In the cases \<open>accepted\<close>, \<open>landed\<close> and \<open>intercepted\<close> the source assigns the momentum of
  the trial to the state; only in the case \<open>accepted\<close> it moves the track and decrements the
  substep counter. \<open>substep_passes\<close> lists the states at the top of each pass of a run.
\<close>

datatype SubstepCase = accepted | halved | landed | intercepted | shortened

definition trial :: "Driver \<Rightarrow> Substepping \<Rightarrow> DriverResult" where
  "trial drv s = advance drv (remaining s) (lp_state s)"

definition substep_branch ::
  "Driver \<Rightarrow> Substepping \<Rightarrow> DriverResult \<Rightarrow> Chord \<Rightarrow> Propagation \<Rightarrow> SubstepCase" where
  "substep_branch drv s sub chord linear_step =
     (if \<not> boundary linear_step then accepted
      else if boundary (lp_result s) \<and> distance linear_step < bump_distance drv then halved
      else if dr_step sub * distance linear_step \<le> minimum_step drv * ch_length chord
      then landed
      else if is_intercept_close (ode_pos (lp_state s)) (ch_dir chord) (distance linear_step)
                (ode_pos (dr_state sub)) (delta_intersection drv) then intercepted
      else shortened)"

definition substep_case :: "OrangeParams \<Rightarrow> Driver \<Rightarrow> Substepping \<Rightarrow> SubstepCase option" where
  "substep_case p drv s =
     do {
       let sub = trial drv s;
       let chord = make_chord (ode_pos (lp_state s)) (ode_pos (dr_state sub));
       let geo1 = set_dir p (lp_geo s) (ch_dir chord);
       (linear_step, geo2) \<leftarrow>
         find_next_step_max p geo1 (ch_length chord + delta_intersection drv);
       Some (substep_branch drv s sub chord linear_step)
     }"

definition movement_committed :: "OrangeParams \<Rightarrow> Driver \<Rightarrow> Substepping \<Rightarrow> bool" where
  "movement_committed p drv s \<longleftrightarrow> substep_case p drv s = Some accepted"

definition momentum_committed :: "OrangeParams \<Rightarrow> Driver \<Rightarrow> Substepping \<Rightarrow> bool" where
  "momentum_committed p drv s \<longleftrightarrow>
     substep_case p drv s = Some accepted \<or> substep_case p drv s = Some landed \<or>
     substep_case p drv s = Some intercepted"

partial_function (option) substep_passes ::
  "OrangeParams \<Rightarrow> Driver \<Rightarrow> real_type \<Rightarrow> Substepping \<Rightarrow> Substepping list option" where
  "substep_passes p drv step s =
     do {
       s' \<leftarrow> substep p drv step s;
       if remaining s' \<ge> minimum_step drv \<and> remaining_substeps s' > 0
       then do { ss \<leftarrow> substep_passes p drv step s'; Some (s # ss) }
       else Some [s]
     }"

subsection \<open>Contracts of the collaborators\<close>

text \<open>The driver and the trackers are outside the propagator.\<close>

text \<open>Modelled from the spec: \<^verbatim>\<open>soft_equal\<close> (corecel/math/SoftEqual.hh is not among the
  sources) is equality within a tolerance; the tolerance is relative to the first
  argument and is a parameter here.\<close>

definition soft_equal :: "real \<Rightarrow> real_type \<Rightarrow> real_type \<Rightarrow> bool" where
  "soft_equal rel expected actual \<longleftrightarrow> \<bar>actual - expected\<bar> < rel * \<bar>expected\<bar>"

text \<open>What the source asserts of the trial substep of a pass:
  \<^verbatim>\<open>CELER_ASSERT(substep.step <= remaining || soft_equal(substep.step, remaining))\<close>.\<close>

definition step_admitted :: "real \<Rightarrow> Driver \<Rightarrow> Substepping \<Rightarrow> bool" where
  "step_admitted rel drv s \<longleftrightarrow>
     dr_step (trial drv s) \<le> remaining s \<or> soft_equal rel (dr_step (trial drv s)) (remaining s)"



subsection \<open>Progress of the substep loop\<close>



section \<open>Example data\<close>

text \<open>A small geometry used to instantiate the theorems below: two levels per thread, one
  universe, a tracker whose surface normal is the x axis. Thread 0 holds a track on
  surface 3 in volume 1; thread 1 holds a fresh slot.\<close>

definition ex_params :: OrangeParams where
  "ex_params = \<lparr>max_level = 2, top_universe_id = Some 0, no_intersection = 1000000,
     daughter = (\<lambda>_. None), global_surface = (\<lambda>u s. s), local_volume = (\<lambda>x. x),
     tr_intersect = (\<lambda>u ls m. \<lparr>is_surface = \<lparr>os_id = Some 3, os_sense = inside\<rparr>, is_distance = 1\<rparr>),
     tr_cross_boundary = (\<lambda>u ls. \<lparr>in_volume = Some 2, in_surface = ls_surface ls\<rparr>),
     tr_normal = (\<lambda>u x s. (1, 0, 0))\<rparr>"

definition ex_states :: OrangeStateData where
  "ex_states = \<lparr>st_vol = (\<lambda>_. None)(0 := Some 1), st_pos = (\<lambda>_. (0, 0, 0))(0 := (1, 2, 3)),
     st_dir = (\<lambda>_. (0, 0, 0))(0 := (1, 0, 0)), st_universe = (\<lambda>_. Some 0),
     st_surf = (\<lambda>_. None)(0 := Some 3), st_sense = (\<lambda>_. inside),
     st_boundary = (\<lambda>_. exiting), st_level = (\<lambda>_. 0), st_next_level = (\<lambda>_. 0)\<rparr>"

definition ex_view :: "ThreadId \<Rightarrow> OrangeTrackView" where
  "ex_view t = \<lparr>states = ex_states, thread = t, next_step = 0, next_surface = no_surface\<rparr>"

definition ex_reentrant_view :: OrangeTrackView where
  "ex_reentrant_view = upd_states (set_boundary 0 reentrant) (ex_view 0)"

text \<open>A rectilinear array of 3 by 4 by 1 cells on \<open>[0, 3] \<times> [0, 4] \<times> [0, 100]\<close>.\<close>

definition ex_rect :: RectArrayTracker where
  "ex_rect = \<lparr>rt_grid = [[0, 1, 2, 3], [0, 1, 2, 3, 4], [0, 100]],
              rt_background = Some 12, rt_infinity = 1000000\<rparr>"

definition ex_local :: "Real3 \<Rightarrow> Real3 \<Rightarrow> VolumeId \<Rightarrow> LocalState" where
  "ex_local x d vol = \<lparr>ls_pos = x, ls_dir = d, ls_volume = vol, ls_surface = no_surface\<rparr>"

text \<open>A geometry of two nested universes: volume 1 of universe 0 holds universe 1. The
  tracker of universe 0 answers distance 5 to its surface 2, the tracker of universe 1
  distance 3 to its surface 1; the surfaces of universe \<open>a\<close> have the global ids
  \<open>10 * a + b\<close>. The track of thread 0 is at level 1.\<close>

definition ex2_params :: OrangeParams where
  "ex2_params = \<lparr>max_level = 2, top_universe_id = Some 0, no_intersection = 1000000,
     daughter = (\<lambda>vol. if vol = Some 1 then Some 1 else None),
     global_surface = (\<lambda>u s. case (u, s) of (Some a, Some b) \<Rightarrow> Some (10 * a + b) | _ \<Rightarrow> None),
     local_volume = (\<lambda>x. x),
     tr_intersect = (\<lambda>u ls m.
        if u = Some 0 then \<lparr>is_surface = \<lparr>os_id = Some 2, os_sense = inside\<rparr>, is_distance = 5\<rparr>
        else \<lparr>is_surface = \<lparr>os_id = Some 1, os_sense = outside\<rparr>, is_distance = 3\<rparr>),
     tr_cross_boundary = (\<lambda>u ls. \<lparr>in_volume = Some 2, in_surface = ls_surface ls\<rparr>),
     tr_normal = (\<lambda>u x s. (1, 0, 0))\<rparr>"

definition ex2_view :: OrangeTrackView where
  "ex2_view = \<lparr>states = \<lparr>st_vol = (\<lambda>_. None)(0 := Some 1, 1 := Some 4),
       st_pos = (\<lambda>_. (0, 0, 0)), st_dir = (\<lambda>_. (1, 0, 0)),
       st_universe = (\<lambda>_. None)(0 := Some 0, 1 := Some 1),
       st_surf = (\<lambda>_. None), st_sense = (\<lambda>_. inside),
       st_boundary = (\<lambda>_. exiting), st_level = (\<lambda>_. 1), st_next_level = (\<lambda>_. 1)\<rparr>,
     thread = 0, next_step = 0, next_surface = no_surface\<rparr>"

text \<open>A driver that moves the position along the x axis by the whole trial length and
  doubles the momentum, with minimum step 2; and the propagator of a particle of momentum
  1 on the track of thread 0 of the first example geometry.\<close>

definition ex_driver :: Driver where
  "ex_driver = \<lparr>advance = (\<lambda>r s. \<lparr>dr_state = \<lparr>ode_pos = axpy r (1, 0, 0) (ode_pos s),
                                                 ode_mom = ax 2 (ode_mom s)\<rparr>,
                                     dr_step = r\<rparr>),
                 minimum_step = 2, delta_intersection = 1 / 10\<rparr>"

definition ex_propagator :: FieldPropagator where
  "ex_propagator = make_field_propagator ex_params ex_driver 1 (ex_view 0)"

text \<open>The same geometry with the boundary at distance \<open>D\<close> in every direction, and with
  the track of thread 0 inside volume 1, off every surface.\<close>

definition plane_params :: "real \<Rightarrow> OrangeParams" where
  "plane_params D =
     ex_params\<lparr>tr_intersect :=
       (\<lambda>u ls m. \<lparr>is_surface = \<lparr>os_id = Some 3, os_sense = inside\<rparr>, is_distance = D\<rparr>)\<rparr>"

definition ex_free_view :: OrangeTrackView where
  "ex_free_view = upd_states (set_surf 0 None) (ex_view 0)"

text \<open>A driver that moves the position by the requested length along the momentum, keeps
  the momentum, and reports \<open>q\<close> times the requested length, with minimum step \<open>1 / 2\<close> and
  intercept tolerance \<open>dl\<close>; and the propagator of a particle of momentum 1 on the track
  inside volume 1.\<close>

definition line_driver :: "real \<Rightarrow> real \<Rightarrow> Driver" where
  "line_driver q dl =
     \<lparr>advance = (\<lambda>r s. \<lparr>dr_state = s\<lparr>ode_pos := axpy r (normalize_direction (ode_mom s))
                                                     (ode_pos s)\<rparr>,
                          dr_step = q * r\<rparr>),
      minimum_step = 1 / 2, delta_intersection = dl\<rparr>"

definition line_propagator :: "real \<Rightarrow> real \<Rightarrow> real \<Rightarrow> FieldPropagator" where
  "line_propagator D q dl =
     make_field_propagator (plane_params D) (line_driver q dl) 1 ex_free_view"

section \<open>Properties of the track view\<close>

lemmas lsa_simps = set_vol_def set_pos_def set_dir_lsa_def set_surf_def set_sense_def
  set_boundary_def upd_states_def clear_next_step_def make_lsa_def lsa_index_def

lemmas ex_simps = ex_params_def ex_states_def ex_view_def ex_reentrant_view_def

text \<open>
  Claim C10. When the boundary intent latched at the current level is \<open>reentrant\<close>, both
  overloads of \<^verbatim>\<open>find_next_step\<close> return distance 0 with the boundary flag set, and the
  track view they return is the one they were given: no tracker is consulted (the result
  holds for every tracker, also one whose search would not end) and neither the cached
  next step nor the next surface changes.
\<close>

theorem find_next_step_reentrant:
  assumes "st_boundary (states v) (make_lsa p v) = reentrant"
  shows "find_next_step p v = Some (\<lparr>distance = 0, boundary = True\<rparr>, v) \<and>
         find_next_step_max p v max_step = Some (\<lparr>distance = 0, boundary = True\<rparr>, v)"
  using assms by (simp add: find_next_step_def find_next_step_max_def)

theorem find_next_step_reentrant_witness:
  "st_boundary (states ex_reentrant_view) (make_lsa ex_params ex_reentrant_view) = reentrant \<and>
   find_next_step ex_params ex_reentrant_view
     = Some (\<lparr>distance = 0, boundary = True\<rparr>, ex_reentrant_view) \<and>
   find_next_step_max ex_params ex_reentrant_view 5
     = Some (\<lparr>distance = 0, boundary = True\<rparr>, ex_reentrant_view)"
proof -
  have h: "st_boundary (states ex_reentrant_view) (make_lsa ex_params ex_reentrant_view) = reentrant"
    by (simp add: ex_simps lsa_simps)
  show ?thesis
    using h find_next_step_reentrant [OF h, of 5] by simp
qed

lemma cross_boundary_after_flip:
  assumes "st_boundary (states v) (make_lsa p v) = exiting"
    and "is_on_boundary p (cross_boundary p v)"
    and "dot_product (tr_normal p (Some 0) (pos p (cross_boundary p v))
                        (surface_id p (cross_boundary p v))) newdir
         * dot_product (tr_normal p (Some 0) (pos p (cross_boundary p v))
                        (surface_id p (cross_boundary p v))) (dir p (cross_boundary p v)) < 0"
  shows "st_boundary (states (set_dir p (cross_boundary p v) newdir))
            (make_lsa p (set_dir p (cross_boundary p v) newdir)) = reentrant"
    and "cross_boundary p (set_dir p (cross_boundary p v) newdir)
           = upd_states (set_boundary (make_lsa p (set_dir p (cross_boundary p v) newdir)) exiting)
               (set_dir p (cross_boundary p v) newdir)"
proof -
  let ?v1 = "cross_boundary p v"
  let ?i = "make_lsa p v"
  have lsa1: "make_lsa p ?v1 = ?i"
    by (simp add: cross_boundary_def make_lsa_def upd_states_def Let_def set_boundary_def set_sense_def set_surf_def set_vol_def)
  have b1: "st_boundary (states ?v1) ?i = exiting"
    using assms(1) by (simp add: cross_boundary_def upd_states_def Let_def set_boundary_def set_sense_def set_surf_def set_vol_def)
  let ?n = "tr_normal p (Some 0) (pos p ?v1) (surface_id p ?v1)"
  have sg: "(dot_product ?n newdir \<ge> 0) \<noteq> (dot_product ?n (dir p ?v1) \<ge> 0)"
    using assms(3) by (smt (verit) mult_nonneg_nonneg mult_nonpos_nonpos)
  let ?v2 = "set_dir p ?v1 newdir"
  have lsa2: "make_lsa p ?v2 = ?i"
    using lsa1 by (simp add: set_dir_def make_lsa_def upd_states_def Let_def clear_next_step_def set_boundary_def set_dir_lsa_def)
  have b2: "st_boundary (states ?v2) ?i = reentrant"
    using assms(2) sg b1 lsa1
    by (simp add: set_dir_def upd_states_def Let_def clear_next_step_def set_boundary_def set_dir_lsa_def)
  show "st_boundary (states ?v2) (make_lsa p ?v2) = reentrant"
    using b2 lsa2 by simp
  show "cross_boundary p ?v2 = upd_states (set_boundary (make_lsa p ?v2) exiting) ?v2"
    using b2 lsa2 by (simp add: cross_boundary_def[of p ?v2] Let_def)
qed

text \<open>
  Claim C4. Take a track on a boundary whose latched intent is \<open>exiting\<close>, cross the
  boundary (the track is on a surface afterwards, as the crossing ensures), and set a new
  direction whose dot product with the surface normal has the sign opposite to the old
  direction's. Then the latched intent is \<open>reentrant\<close>, and a second \<^verbatim>\<open>cross_boundary\<close>
  leaves the volume id, the surface id, the sense and the position as they were and
  resets the intent to \<open>exiting\<close>.
\<close>

theorem cross_boundary_idempotent_after_reversal:
  assumes "is_on_boundary p v"
    and "st_boundary (states v) (make_lsa p v) = exiting"
    and "is_on_boundary p (cross_boundary p v)"
    and "dot_product (tr_normal p (Some 0) (pos p (cross_boundary p v))
                        (surface_id p (cross_boundary p v))) newdir
         * dot_product (tr_normal p (Some 0) (pos p (cross_boundary p v))
                        (surface_id p (cross_boundary p v))) (dir p (cross_boundary p v)) < 0"
    and "v2 = set_dir p (cross_boundary p v) newdir"
    and "v3 = cross_boundary p v2"
  shows "st_boundary (states v2) (make_lsa p v2) = reentrant \<and>
         volume_id p v3 = volume_id p v2 \<and>
         surface_id p v3 = surface_id p v2 \<and>
         st_sense (states v3) (make_lsa p v3) = st_sense (states v2) (make_lsa p v2) \<and>
         pos p v3 = pos p v2 \<and>
         st_boundary (states v3) (make_lsa p v3) = exiting"
proof -
  have r: "st_boundary (states v2) (make_lsa p v2) = reentrant"
    and e: "v3 = upd_states (set_boundary (make_lsa p v2) exiting) v2"
    using cross_boundary_after_flip [OF assms(2,3,4)] assms(5,6) by simp_all
  have l: "make_lsa p v3 = make_lsa p v2"
    by (simp add: e make_lsa_def upd_states_def set_boundary_def)
  show ?thesis
    using r l by (simp add: e volume_id_def surface_id_def pos_def upd_states_def set_boundary_def)
qed

theorem cross_boundary_idempotent_after_reversal_witness:
  "is_on_boundary ex_params (ex_view 0) \<and>
   volume_id ex_params (cross_boundary ex_params (ex_view 0)) = Some 2 \<and>
   volume_id ex_params (cross_boundary ex_params
       (set_dir ex_params (cross_boundary ex_params (ex_view 0)) (- 1, 0, 0))) = Some 2 \<and>
   st_boundary (states (cross_boundary ex_params
       (set_dir ex_params (cross_boundary ex_params (ex_view 0)) (- 1, 0, 0)))) 0 = exiting"
proof -
  have c: "cross_boundary ex_params (ex_view 0)
      = upd_states (set_sense 0 outside \<circ> set_vol 0 (Some 2)) (ex_view 0)"
    by (simp add: cross_boundary_def ex_simps lsa_simps Let_def pos_def dir_def fun_upd_idem_iff)
  have h1: "is_on_boundary ex_params (ex_view 0)"
    by (simp add: is_on_boundary_def surface_id_def ex_simps lsa_simps)
  have h2: "st_boundary (states (ex_view 0)) (make_lsa ex_params (ex_view 0)) = exiting"
    by (simp add: ex_simps lsa_simps)
  have h3: "is_on_boundary ex_params (cross_boundary ex_params (ex_view 0))"
    unfolding c by (simp add: is_on_boundary_def surface_id_def ex_simps lsa_simps)
  have h4: "dot_product (tr_normal ex_params (Some 0) (pos ex_params (cross_boundary ex_params (ex_view 0)))
                        (surface_id ex_params (cross_boundary ex_params (ex_view 0)))) (- 1, 0, 0)
         * dot_product (tr_normal ex_params (Some 0) (pos ex_params (cross_boundary ex_params (ex_view 0)))
                        (surface_id ex_params (cross_boundary ex_params (ex_view 0))))
                (dir ex_params (cross_boundary ex_params (ex_view 0))) < 0"
    unfolding c by (simp add: dir_def pos_def ex_simps lsa_simps)
  have l: "make_lsa ex_params (cross_boundary ex_params
       (set_dir ex_params (cross_boundary ex_params (ex_view 0)) (- 1, 0, 0))) = 0"
    by (simp add: make_lsa_def lsa_index_def cross_boundary_def set_dir_def Let_def
        upd_states_def clear_next_step_def set_vol_def set_pos_def set_dir_lsa_def set_surf_def
        set_sense_def set_boundary_def ex_simps)
  have v1: "volume_id ex_params (cross_boundary ex_params (ex_view 0)) = Some 2"
    unfolding c by (simp add: volume_id_def ex_simps lsa_simps)
  have v2: "volume_id ex_params (set_dir ex_params (cross_boundary ex_params (ex_view 0)) (- 1, 0, 0))
     = Some 2"
    unfolding c by (simp add: volume_id_def set_dir_def Let_def ex_simps lsa_simps)
  show ?thesis
    using h1 v1 v2 l cross_boundary_idempotent_after_reversal [OF h1 h2 h3 h4 refl refl]
    by simp
qed

text \<open>
  Claim C7. Assignment from a \<^verbatim>\<open>DetailedInitializer\<close> should copy the parent's records at
  every occupied level, the deepest included, and store the new direction. The loop runs
  over \<^verbatim>\<open>range(level)\<close>, which stops before the parent's current level, and the new
  direction is never stored. For a parent at level 0 (in volume 1 at \<open>(1, 2, 3)\<close>) nothing
  is copied: the child is at level 0 with the slot's old volume, position and direction,
  and its direction is not the new direction \<open>(0, 1, 0)\<close>.
\<close>

theorem detailed_initializer_at_failing_input:
  "volume_id ex_params (ex_view 0) = Some 1 \<and>
   pos ex_params (ex_view 0) = (1, 2, 3) \<and>
   st_level (states (ex_view 0)) 0 = 0 \<and>
   (let v' = assign_detailed ex_params (ex_view 1) \<lparr>di_other = ex_view 0, di_dir = (0, 1, 0)\<rparr>
    in st_level (states v') 1 = 0 \<and>
       volume_id ex_params v' = None \<and>
       pos ex_params v' = (0, 0, 0) \<and>
       dir ex_params v' = (0, 0, 0))"
  by (simp add: assign_detailed_def ex_simps clear_next_step_def
     volume_id_def pos_def dir_def make_lsa_def lsa_index_def Let_def)

lemma find_next_step_loop_unroll:
  assumes "check_uid p v (level + n) = cur"
    and "\<forall>k<n. check_uid p v (level + k) \<noteq> cur"
  shows "find_next_step_loop p v max_step cur (check_uid p v level) m s u level
           = Some (fold (closer p v max_step) [level..<level + n + 1] (m, s, u))"
  using assms
proof (induction n arbitrary: level m s u)
  case 0
  then show ?case
    by (subst find_next_step_loop.simps)
       (simp add: closer_def level_intersection_def Let_def)
next
  case (Suc n)
  have "0 < Suc n" by simp
  with Suc.prems(2) have "check_uid p v (level + 0) \<noteq> cur" by blast
  then have ne: "check_uid p v level \<noteq> cur" by simp
  have nxt: "daughter p (st_vol (states v) (lsa_index p (thread v) level))
               = check_uid p v (level + 1)"
    by (simp add: check_uid_def)
  have a: "check_uid p v (level + 1 + n) = cur" using Suc.prems(1) by simp
  have b: "\<forall>k<n. check_uid p v (level + 1 + k) \<noteq> cur"
  proof (intro allI impI)
    fix k
    assume "k < n"
    then have "Suc k < Suc n" by simp
    with Suc.prems(2) have "check_uid p v (level + Suc k) \<noteq> cur" by blast
    then show "check_uid p v (level + 1 + k) \<noteq> cur" by simp
  qed
  obtain m' s' u' where c: "closer p v max_step level (m, s, u) = (m', s', u')"
    by (cases "closer p v max_step level (m, s, u)") auto
  have l: "[level..<level + Suc n + 1] = level # [level + 1..<level + 1 + n + 1]"
    by (simp add: upt_conv_Cons)
  have "find_next_step_loop p v max_step cur (check_uid p v level) m s u level
          = find_next_step_loop p v max_step cur (check_uid p v (level + 1)) m' s' u' (level + 1)"
    using ne c
    by (subst find_next_step_loop.simps)
       (auto simp: closer_def level_intersection_def Let_def nxt split: if_splits)
  also have "\<dots> = Some (fold (closer p v max_step) [level + 1..<level + 1 + n + 1] (m', s', u'))"
    by (rule Suc.IH [OF a b])
  finally show ?case by (simp only: l fold_Cons comp_def c)
qed

lemma fold_closer_fst:
  "fst (fold (closer p v max_step) ks best)
     = Min (insert (fst best) ((\<lambda>k. is_distance (level_intersection p v max_step k)) ` set ks))"
proof (induction ks arbitrary: best)
  case Nil
  show ?case by simp
next
  case (Cons k ks)
  have f: "fst (closer p v max_step k best)
             = min (is_distance (level_intersection p v max_step k)) (fst best)"
    by (simp add: closer_def min_def)
  let ?D = "(\<lambda>k. is_distance (level_intersection p v max_step k)) ` set ks"
  have "Min (insert (min (is_distance (level_intersection p v max_step k)) (fst best)) ?D)
          = Min (insert (fst best) (insert (is_distance (level_intersection p v max_step k)) ?D))"
    by (cases "?D = {}") (simp_all add: min.commute min.left_commute min.assoc)
  then show ?case by (simp add: Cons.IH f)
qed

lemma fold_closer_cases:
  "fold (closer p v max_step) ks best = best \<or>
   (\<exists>k\<in>set ks. fold (closer p v max_step) ks best
            = (is_distance (level_intersection p v max_step k),
               is_surface (level_intersection p v max_step k), check_uid p v k)
        \<and> is_distance (level_intersection p v max_step k) < fst best)"
proof (induction ks arbitrary: best)
  case Nil
  show ?case by simp
next
  case (Cons k ks)
  let ?b = "closer p v max_step k best"
  have b: "?b = best \<or>
     (?b = (is_distance (level_intersection p v max_step k),
            is_surface (level_intersection p v max_step k), check_uid p v k)
      \<and> is_distance (level_intersection p v max_step k) < fst best)"
    by (simp add: closer_def)
  have le: "fst ?b \<le> fst best" by (simp add: closer_def)
  from Cons.IH [of ?b] show ?case
  proof (elim disjE bexE conjE)
    assume "fold (closer p v max_step) ks ?b = ?b"
    with b show ?thesis by auto
  next
    fix j
    assume j: "j \<in> set ks"
      and r: "fold (closer p v max_step) ks ?b
            = (is_distance (level_intersection p v max_step j),
               is_surface (level_intersection p v max_step j), check_uid p v j)"
      and l: "is_distance (level_intersection p v max_step j) < fst ?b"
    from l le have "is_distance (level_intersection p v max_step j) < fst best" by simp
    with j r show ?thesis by auto
  qed
qed

lemma clear_next_step_idle: "next_step v = 0 \<Longrightarrow> clear_next_step v = v"
  by (simp add: clear_next_step_def)

lemma find_next_step_impl_fold:
  assumes "check_uid p v n = st_universe (states v) (make_lsa p v)"
    and "\<forall>k<n. check_uid p v k \<noteq> st_universe (states v) (make_lsa p v)"
    and "fold (closer p v max_step) [0..<n + 1] (max_step, no_surface, None) = (m, s, u)"
  shows "find_next_step_impl p v max_step
           = Some (v\<lparr>next_step := m,
                     next_surface :=
                       (if u \<noteq> None
                        then \<lparr>os_id = global_surface p u (os_id s), os_sense = os_sense s\<rparr>
                        else s)\<rparr>)"
proof -
  have t: "top_universe_id p = check_uid p v 0" by (simp add: check_uid_def)
  have "find_next_step_loop p v max_step (st_universe (states v) (make_lsa p v))
          (check_uid p v 0) max_step no_surface None 0
        = Some (fold (closer p v max_step) [0..<0 + n + 1] (max_step, no_surface, None))"
    using assms(1,2) by (intro find_next_step_loop_unroll) simp_all
  with assms(3) show ?thesis
    by (simp add: find_next_step_impl_def t)
qed

text \<open>
  Claim C2. Take a track whose latched intent is not \<open>reentrant\<close> and that has no cached
  step, and let the universes visited from the top one reach the universe of the current
  level in pass \<open>n\<close>, all of them valid. Then \<^verbatim>\<open>find_next_step(max_step)\<close> returns, and the
  distance it returns and caches is the minimum of \<open>max_step\<close> and of the distances answered
  by the trackers of the universes of passes \<open>0, ..., n\<close>, so it never exceeds \<open>max_step\<close>.
  When the distance is below \<open>max_step\<close> a tracker has won, and the cached next surface is
  that tracker's local surface converted by \<^verbatim>\<open>global_surface\<close> of the unit indexer, with the
  tracker's sense; when no tracker wins no surface is cached.
\<close>

theorem find_next_step_minimum:
  assumes "st_boundary (states v) (make_lsa p v) \<noteq> reentrant"
    and "next_step v = 0"
    and "0 < max_step"
    and "check_uid p v n = st_universe (states v) (make_lsa p v)"
    and "\<forall>k<n. check_uid p v k \<noteq> st_universe (states v) (make_lsa p v)"
    and "\<forall>k\<le>n. check_uid p v k \<noteq> None"
  shows "\<exists>res v'. find_next_step_max p v max_step = Some (res, v')
           \<and> distance res
               = Min (insert max_step
                       ((\<lambda>k. is_distance (level_intersection p v max_step k)) ` {..n}))
           \<and> distance res \<le> max_step
           \<and> next_step v' = distance res
           \<and> boundary res = on_surface (next_surface v')
           \<and> (distance res < max_step \<longrightarrow>
                (\<exists>k\<le>n. is_distance (level_intersection p v max_step k) = distance res
                   \<and> next_surface v'
                       = \<lparr>os_id = global_surface p (check_uid p v k)
                                    (os_id (is_surface (level_intersection p v max_step k))),
                          os_sense = os_sense (is_surface (level_intersection p v max_step k))\<rparr>))
           \<and> (distance res = max_step \<longrightarrow> next_surface v' = no_surface)"
proof -
  let ?d = "\<lambda>k. is_distance (level_intersection p v max_step k)"
  define ks where "ks = [0..<n + 1]"
  have ks: "set ks = {..n}" by (auto simp: ks_def)
  let ?r = "fold (closer p v max_step) ks (max_step, no_surface, None)"
  obtain m s u where r: "?r = (m, s, u)" by (cases ?r) auto
  let ?ns = "if u \<noteq> None then \<lparr>os_id = global_surface p u (os_id s), os_sense = os_sense s\<rparr>
             else s"
  let ?v' = "v\<lparr>next_step := m, next_surface := ?ns\<rparr>"
  have impl: "find_next_step_impl p v max_step = Some ?v'"
    by (rule find_next_step_impl_fold [OF assms(4,5) r [unfolded ks_def]])
  have run: "find_next_step_max p v max_step
               = Some (\<lparr>distance = m, boundary = on_surface ?ns\<rparr>, ?v')"
    using assms(1,2,3) impl
    by (simp add: find_next_step_max_def clear_next_step_idle has_next_step_def)
  have "m = fst ?r" by (simp only: r fst_conv)
  also have "\<dots> = Min (insert max_step (?d ` set ks))"
    by (simp only: fold_closer_fst fst_conv)
  finally have mn: "m = Min (insert max_step (?d ` {..n}))" by (simp only: ks)
  then have le: "m \<le> max_step" by simp
  have win: "\<exists>k\<le>n. ?d k = m
        \<and> ?ns = \<lparr>os_id = global_surface p (check_uid p v k)
                          (os_id (is_surface (level_intersection p v max_step k))),
                  os_sense = os_sense (is_surface (level_intersection p v max_step k))\<rparr>"
    if "m < max_step"
  proof -
    from that r have "?r \<noteq> (max_step, no_surface, None)" by auto
    with fold_closer_cases [of p v max_step ks "(max_step, no_surface, None)"]
    obtain k where k: "k \<in> set ks"
      and e: "?r = (?d k, is_surface (level_intersection p v max_step k), check_uid p v k)"
      by auto
    from k have kn: "k \<le> n" by (simp add: ks)
    with assms(6) have "check_uid p v k \<noteq> None" by simp
    with e r kn show ?thesis by (intro exI [of _ k]) auto
  qed
  have lose: "?ns = no_surface" if "m = max_step"
  proof -
    from fold_closer_cases [of p v max_step ks "(max_step, no_surface, None)"]
    have "?r = (max_step, no_surface, None)" using that r by auto
    with r show ?thesis by simp
  qed
  show ?thesis
    using run mn le win lose
    by (intro exI [of _ "\<lparr>distance = m, boundary = on_surface ?ns\<rparr>"] exI [of _ ?v']) simp
qed

lemma ex2_chain:
  "make_lsa ex2_params ex2_view = 1"
  "check_uid ex2_params ex2_view 0 = Some 0"
  "check_uid ex2_params ex2_view 1 = Some 1"
  "level_intersection ex2_params ex2_view 10 0
     = \<lparr>is_surface = \<lparr>os_id = Some 2, os_sense = inside\<rparr>, is_distance = 5\<rparr>"
  "level_intersection ex2_params ex2_view 10 1
     = \<lparr>is_surface = \<lparr>os_id = Some 1, os_sense = outside\<rparr>, is_distance = 3\<rparr>"
  by (simp_all add: level_intersection_def check_uid_def make_lsa_def lsa_index_def
      ex2_params_def ex2_view_def)

lemma le_1_cases: "(k::nat) \<le> 1 \<longleftrightarrow> k = 0 \<or> k = 1"
  by auto

theorem find_next_step_minimum_witness:
  "\<exists>res v'. find_next_step_max ex2_params ex2_view 10 = Some (res, v')
     \<and> distance res = 3 \<and> boundary res
     \<and> next_surface v' = \<lparr>os_id = Some 11, os_sense = outside\<rparr>"
proof -
  have h1: "st_boundary (states ex2_view) (make_lsa ex2_params ex2_view) \<noteq> reentrant"
    by (simp add: ex2_view_def)
  have h2: "next_step ex2_view = 0" by (simp add: ex2_view_def)
  have h3: "(0::real) < 10" by simp
  have h4: "check_uid ex2_params ex2_view 1 = st_universe (states ex2_view) (make_lsa ex2_params ex2_view)"
    unfolding ex2_chain by (simp add: ex2_view_def)
  have h5: "\<forall>k<1. check_uid ex2_params ex2_view k \<noteq> st_universe (states ex2_view) (make_lsa ex2_params ex2_view)"
    unfolding ex2_chain by (simp add: ex2_view_def check_uid_def ex2_params_def)
  have h6: "\<forall>k\<le>1. check_uid ex2_params ex2_view k \<noteq> None"
    unfolding le_1_cases using ex2_chain(2,3) by auto
  have s: "{..1::nat} = {0, 1}" by auto
  have g: "global_surface ex2_params (Some 1) (Some 1) = Some 11"
    by (simp add: ex2_params_def)
  from find_next_step_minimum [OF h1 h2 h3 h4 h5 h6]
  obtain res v' where r: "find_next_step_max ex2_params ex2_view 10 = Some (res, v')"
    and d: "distance res
               = Min (insert 10
                       ((\<lambda>k. is_distance (level_intersection ex2_params ex2_view 10 k)) ` {..1}))"
    and b: "boundary res = on_surface (next_surface v')"
    and w: "distance res < 10 \<longrightarrow>
                (\<exists>k\<le>1. is_distance (level_intersection ex2_params ex2_view 10 k) = distance res
                   \<and> next_surface v'
                       = \<lparr>os_id = global_surface ex2_params (check_uid ex2_params ex2_view k)
                                    (os_id (is_surface (level_intersection ex2_params ex2_view 10 k))),
                          os_sense = os_sense (is_surface (level_intersection ex2_params ex2_view 10 k))\<rparr>)"
    by blast
  from d have d3: "distance res = 3"
    unfolding s by (simp add: ex2_chain(4,5) ex2_chain(5) [unfolded One_nat_def])
  with w have n: "next_surface v' = \<lparr>os_id = Some 11, os_sense = outside\<rparr>"
    unfolding le_1_cases using ex2_chain(3,4,5) g by auto
  with b have "boundary res" by (simp add: on_surface_def)
  with r d3 n show ?thesis by blast
qed

section \<open>Properties of the rectilinear-array tracker\<close>

lemma lower_bound_below:
  assumes "j < lower_bound g v"
  shows "g ! j < v"
proof -
  from assms have j: "j < length (takeWhile (\<lambda>x. x < v) g)" by (simp add: lower_bound_def)
  then have "takeWhile (\<lambda>x. x < v) g ! j \<in> set (takeWhile (\<lambda>x. x < v) g)" by simp
  then have "takeWhile (\<lambda>x. x < v) g ! j < v" by (blast dest: set_takeWhileD)
  with j show ?thesis by (simp add: takeWhile_nth)
qed

lemma lower_bound_le_length: "lower_bound g v \<le> length g"
  by (simp add: lower_bound_def length_takeWhile_le)

lemma lower_bound_at:
  assumes "lower_bound g v < length g"
  shows "v \<le> g ! lower_bound g v"
  using nth_length_takeWhile [of "\<lambda>x. x < v" g] assms by (simp add: lower_bound_def)

lemma grid_find_on_point:
  assumes "sorted_wrt (<) g" and "v \<in> set g"
  shows "g ! grid_find g v = v"
proof -
  from assms(2) obtain j where j: "j < length g" "g ! j = v" by (auto simp: in_set_conv_nth)
  have kj: "lower_bound g v \<le> j"
  proof (rule ccontr)
    assume "\<not> lower_bound g v \<le> j"
    then have "g ! j < v" by (intro lower_bound_below) simp
    with j show False by simp
  qed
  with j have kl: "lower_bound g v < length g" by simp
  have "g ! lower_bound g v \<le> g ! j"
  proof (cases "lower_bound g v = j")
    case True then show ?thesis by simp
  next
    case False
    with kj have "lower_bound g v < j" by simp
    with assms(1) j have "g ! lower_bound g v < g ! j" by (intro sorted_wrt_nth_less) auto
    then show ?thesis by simp
  qed
  with lower_bound_at [OF kl] j have "g ! lower_bound g v = v" by simp
  then show ?thesis by (simp add: grid_find_def Let_def)
qed

lemma grid_find_off_point:
  assumes "2 \<le> length g" and "grid_front g \<le> v" and "v \<le> grid_back g" and "v \<notin> set g"
  shows "grid_find g v + 1 < length g \<and> g ! grid_find g v < v \<and> v < g ! (grid_find g v + 1)"
proof -
  let ?k = "lower_bound g v"
  have f: "g ! 0 < v"
    using assms by (metis grid_front_def nth_mem order_less_le less_le_trans zero_less_numeral)
  have b: "v < g ! (length g - 1)"
    using assms by (metis grid_back_def nth_mem order_less_le diff_less less_le_trans zero_less_numeral zero_less_one)
  have k0: "0 < ?k"
  proof (rule ccontr)
    assume "\<not> 0 < ?k"
    then have "?k = 0" by simp
    moreover have "?k < length g" using assms(1) \<open>?k = 0\<close> by auto
    ultimately show False using lower_bound_at [of g v] f by simp
  qed
  have kl: "?k < length g"
  proof (rule ccontr)
    assume "\<not> ?k < length g"
    then have "length g - 1 < ?k" using assms(1) lower_bound_le_length [of g v] by simp
    from lower_bound_below [OF this] b show False by simp
  qed
  have "g ! ?k \<noteq> v" using assms(4) kl by (metis nth_mem)
  with lower_bound_at [OF kl] have gt: "v < g ! ?k" by simp
  then have fi: "grid_find g v = ?k - 1" by (simp add: grid_find_def Let_def)
  have "g ! (?k - 1) < v" using k0 by (intro lower_bound_below) simp
  with fi gt kl k0 show ?thesis by simp
qed

lemma initialize_axes_off:
  assumes "sorted_wrt (<) (rt_grid r ! a)" and "off_cell r (ls_pos state) a"
  shows "initialize_axes r state (a # axes) c
           = Inl \<lparr>in_volume = rt_background r, in_surface = no_surface\<rparr>"
proof (cases "real3_at (ls_pos state) a < grid_front (rt_grid r ! a)
              \<or> real3_at (ls_pos state) a > grid_back (rt_grid r ! a)")
  case True
  then show ?thesis by (simp add: Let_def)
next
  case False
  with assms(2) have "real3_at (ls_pos state) a \<in> set (rt_grid r ! a)"
    by (simp add: off_cell_def)
  from grid_find_on_point [OF assms(1) this] False show ?thesis
    by (simp add: Let_def)
qed

lemma initialize_axes_in:
  assumes "2 \<le> length (rt_grid r ! a)" and "\<not> off_cell r (ls_pos state) a"
  shows "initialize_axes r state (a # axes) c
           = initialize_axes r state axes (c[a := grid_find (rt_grid r ! a) (real3_at (ls_pos state) a)])"
    and "grid_find (rt_grid r ! a) (real3_at (ls_pos state) a) + 1 < length (rt_grid r ! a)"
    and "rt_grid r ! a ! grid_find (rt_grid r ! a) (real3_at (ls_pos state) a)
           < real3_at (ls_pos state) a"
    and "real3_at (ls_pos state) a
           < rt_grid r ! a ! (grid_find (rt_grid r ! a) (real3_at (ls_pos state) a) + 1)"
proof -
  let ?g = "rt_grid r ! a" and ?x = "real3_at (ls_pos state) a"
  from assms(2) have b: "grid_front ?g \<le> ?x" "?x \<le> grid_back ?g" "?x \<notin> set ?g"
    by (auto simp: off_cell_def)
  from grid_find_off_point [OF assms(1) b]
  show "grid_find ?g ?x + 1 < length ?g" and l: "?g ! grid_find ?g ?x < ?x"
    and "?x < ?g ! (grid_find ?g ?x + 1)" by simp_all
  from b l show "initialize_axes r state (a # axes) c
           = initialize_axes r state axes (c[a := grid_find ?g ?x])"
    by (simp add: Let_def)
qed

lemma less_3_cases: "(a::nat) < 3 \<longleftrightarrow> a = 0 \<or> a = 1 \<or> a = 2"
  by auto

lemma dims_nth: "a < 3 \<Longrightarrow> dims r ! a = length (rt_grid r ! a) - 1"
  by (auto simp: dims_def less_3_cases)

text \<open>
  Claim C8. With increasing grids of at least two points, \<^verbatim>\<open>initialize\<close> returns the
  background volume, with no surface, whenever on some axis the position is below the
  first grid point, above the last one, or equal to a grid point; otherwise it returns,
  with no surface, the cell volume whose index is built from the per-axis coordinates
  \<open>c\<close> of the cell that strictly contains the position.
\<close>

theorem initialize_background_or_cell:
  assumes "\<forall>a<3. sorted_wrt (<) (rt_grid r ! a) \<and> 2 \<le> length (rt_grid r ! a)"
  shows "if \<exists>a<3. real3_at (ls_pos state) a < grid_front (rt_grid r ! a)
                 \<or> real3_at (ls_pos state) a > grid_back (rt_grid r ! a)
                 \<or> real3_at (ls_pos state) a \<in> set (rt_grid r ! a)
         then initialize r state = \<lparr>in_volume = rt_background r, in_surface = no_surface\<rparr>
         else \<exists>c. length c = 3
                \<and> (\<forall>a<3. c ! a < dims r ! a
                          \<and> rt_grid r ! a ! (c ! a) < real3_at (ls_pos state) a
                          \<and> real3_at (ls_pos state) a < rt_grid r ! a ! (c ! a + 1))
                \<and> initialize r state
                    = \<lparr>in_volume = Some (hyperslab_index (dims r) c), in_surface = no_surface\<rparr>"
proof -
  let ?x = "ls_pos state"
  let ?f = "\<lambda>a. grid_find (rt_grid r ! a) (real3_at ?x a)"
  have s: "\<And>a. a < 3 \<Longrightarrow> sorted_wrt (<) (rt_grid r ! a)"
    and n: "\<And>a. a < 3 \<Longrightarrow> 2 \<le> length (rt_grid r ! a)"
    using assms by simp_all
  have ex: "(\<exists>a<3. real3_at ?x a < grid_front (rt_grid r ! a)
                 \<or> real3_at ?x a > grid_back (rt_grid r ! a)
                 \<or> real3_at ?x a \<in> set (rt_grid r ! a))
        \<longleftrightarrow> off_cell r ?x 0 \<or> off_cell r ?x 1 \<or> off_cell r ?x 2"
    by (auto simp: off_cell_def less_3_cases)
  consider (x) "off_cell r ?x 0"
    | (y) "\<not> off_cell r ?x 0" "off_cell r ?x 1"
    | (z) "\<not> off_cell r ?x 0" "\<not> off_cell r ?x 1" "off_cell r ?x 2"
    | (cell) "\<not> off_cell r ?x 0" "\<not> off_cell r ?x 1" "\<not> off_cell r ?x 2"
    by blast
  then show ?thesis
  proof cases
    case x
    from initialize_axes_off [OF s this] x show ?thesis
      unfolding ex by (simp add: initialize_def)
  next
    case y
    from initialize_axes_in(1) [OF n y(1)] initialize_axes_off [OF s y(2)] y show ?thesis
      unfolding ex by (simp add: initialize_def)
  next
    case z
    from initialize_axes_in(1) [OF n z(1)] initialize_axes_in(1) [OF n z(2)]
      initialize_axes_off [OF s z(3)] z show ?thesis
      unfolding ex by (simp add: initialize_def)
  next
    case cell
    let ?c = "[?f 0, ?f 1, ?f 2]"
    have i: "initialize r state
               = \<lparr>in_volume = Some (hyperslab_index (dims r) ?c), in_surface = no_surface\<rparr>"
      using initialize_axes_in(1) [OF n cell(1)] initialize_axes_in(1) [OF n cell(2)]
        initialize_axes_in(1) [OF n cell(3)]
      by (simp add: initialize_def)
    have "\<forall>a<3. ?c ! a < dims r ! a
              \<and> rt_grid r ! a ! (?c ! a) < real3_at ?x a
              \<and> real3_at ?x a < rt_grid r ! a ! (?c ! a + 1)"
      using initialize_axes_in(2-4) [OF n cell(1)] initialize_axes_in(2-4) [OF n cell(2)]
        initialize_axes_in(2-4) [OF n cell(3)]
      by (auto simp: less_3_cases dims_nth)
    with i cell show ?thesis
      unfolding ex by (intro iffD2 [OF if_not_P] exI [of _ ?c]) auto
  qed
qed

lemma ex_rect_grids:
  "\<forall>a<3. sorted_wrt (<) (rt_grid ex_rect ! a) \<and> 2 \<le> length (rt_grid ex_rect ! a)"
  by (simp add: less_3_cases ex_rect_def)

theorem initialize_background_or_cell_witness:
  "sorted_wrt (<) (rt_grid ex_rect ! 0) \<and> 2 \<le> length (rt_grid ex_rect ! 0) \<and>
   sorted_wrt (<) (rt_grid ex_rect ! 1) \<and> 2 \<le> length (rt_grid ex_rect ! 1) \<and>
   sorted_wrt (<) (rt_grid ex_rect ! 2) \<and> 2 \<le> length (rt_grid ex_rect ! 2) \<and>
   initialize ex_rect (ex_local (1, 5 / 2, 30) (1, 0, 0) None)
     = \<lparr>in_volume = Some 12, in_surface = no_surface\<rparr>"
proof -
  have "\<exists>a<3. real3_at (ls_pos (ex_local (1, 5 / 2, 30) (1, 0, 0) None)) a < grid_front (rt_grid ex_rect ! a)
          \<or> real3_at (ls_pos (ex_local (1, 5 / 2, 30) (1, 0, 0) None)) a > grid_back (rt_grid ex_rect ! a)
          \<or> real3_at (ls_pos (ex_local (1, 5 / 2, 30) (1, 0, 0) None)) a \<in> set (rt_grid ex_rect ! a)"
    by (intro exI [of _ 0]) (simp add: ex_rect_def ex_local_def)
  with initialize_background_or_cell [OF ex_rect_grids, of "ex_local (1, 5 / 2, 30) (1, 0, 0) None"]
  have "initialize ex_rect (ex_local (1, 5 / 2, 30) (1, 0, 0) None)
     = \<lparr>in_volume = rt_background ex_rect, in_surface = no_surface\<rparr>"
    by presburger
  then show ?thesis by (simp add: ex_rect_def)
qed

lemma initialize_cell_example:
  "initialize ex_rect (ex_local (3 / 2, 5 / 2, 30) (1, 0, 0) None)
     = \<lparr>in_volume = Some 6, in_surface = no_surface\<rparr>"
  by code_simp

lemma unit_component_le_1:
  assumes "norm3 d = 1" and "a < 3"
  shows "\<bar>real3_at d a\<bar> \<le> 1"
proof -
  obtain x y z where d: "d = (x, y, z)" by (cases d) auto
  from assms(1) have "x * x + y * y + z * z = 1"
    by (simp add: d norm3_def)
  then have "x\<^sup>2 \<le> 1" "y\<^sup>2 \<le> 1" "z\<^sup>2 \<le> 1"
    by (smt (verit) power2_eq_square zero_le_square)+
  then have "\<bar>x\<bar> \<le> 1" "\<bar>y\<bar> \<le> 1" "\<bar>z\<bar> \<le> 1"
    by (simp_all add: abs_square_le_1)
  then show ?thesis by (simp add: d)
qed

lemma abs_le_abs_divide:
  fixes t d :: real
  assumes "d \<noteq> 0" and "\<bar>d\<bar> \<le> 1"
  shows "\<bar>t\<bar> \<le> \<bar>t / d\<bar>"
proof -
  have "\<bar>t\<bar> * \<bar>d\<bar> \<le> \<bar>t\<bar> * 1" using assms(2) by (intro mult_left_mono) simp_all
  then show ?thesis using assms(1) by (simp add: abs_divide pos_le_divide_eq)
qed

lemma fold_le_init:
  fixes m :: real
  assumes "\<And>x m. g x m \<le> m"
  shows "fold g xs m \<le> m"
proof (induction xs arbitrary: m)
  case Nil
  show ?case by simp
next
  case (Cons x xs)
  have "fold g xs (g x m) \<le> g x m" by (rule Cons.IH)
  also have "\<dots> \<le> m" by (rule assms)
  finally show ?case by simp
qed

lemma fold_le_elem:
  fixes m b :: real
  assumes "\<And>x m. g x m \<le> m" and "\<And>m. g a m \<le> b" and "a \<in> set xs"
  shows "fold g xs m \<le> b"
  using assms(3)
proof (induction xs arbitrary: m)
  case Nil
  then show ?case by simp
next
  case (Cons x xs)
  show ?case
  proof (cases "a = x")
    case True
    have "fold g xs (g x m) \<le> g x m" by (rule fold_le_init [OF assms(1)])
    also have "\<dots> \<le> b" unfolding True [symmetric] by (rule assms(2))
    finally show ?thesis by simp
  next
    case False
    with Cons.prems have "a \<in> set xs" by simp
    from Cons.IH [OF this] show ?thesis by simp
  qed
qed

lemma safety_le_plane:
  assumes "a < 3" and "i < 2"
  shows "safety r x vol
           \<le> \<bar>real3_at x a - rt_grid r ! a ! (hyperslab_inverse (dims r) (the vol) ! a + i)\<bar>"
proof -
  let ?c = "hyperslab_inverse (dims r) (the vol)"
  let ?h = "\<lambda>a i (m::real). min m \<bar>real3_at x a - rt_grid r ! a ! (?c ! a + i)\<bar>"
  let ?g = "\<lambda>a m. fold (?h a) [0, 1] m"
  have s: "safety r x vol = fold ?g [0, 1, 2] (rt_infinity r)"
    by (simp only: safety_def Let_def)
  have h: "\<And>a i m. ?h a i m \<le> m" by simp
  have g: "\<And>a m. ?g a m \<le> m" by (rule fold_le_init [OF h])
  have i: "i \<in> set [0, 1]" using assms(2) by auto
  have "\<And>m. ?g a m \<le> \<bar>real3_at x a - rt_grid r ! a ! (?c ! a + i)\<bar>"
    by (rule fold_le_elem [OF h _ i]) simp
  moreover have "a \<in> set [0, 1, 2]" using assms(1) by auto
  ultimately show ?thesis unfolding s by (intro fold_le_elem [OF g])
qed

lemma safety_le_infinity: "safety r x vol \<le> rt_infinity r"
proof -
  let ?c = "hyperslab_inverse (dims r) (the vol)"
  let ?h = "\<lambda>a i (m::real). min m \<bar>real3_at x a - rt_grid r ! a ! (?c ! a + i)\<bar>"
  let ?g = "\<lambda>a m. fold (?h a) [0, 1] m"
  have s: "safety r x vol = fold ?g [0, 1, 2] (rt_infinity r)"
    by (simp only: safety_def Let_def)
  have h: "\<And>a i m. ?h a i m \<le> m" by simp
  have g: "\<And>a m. ?g a m \<le> m" by (rule fold_le_init [OF h])
  show ?thesis unfolding s by (rule fold_le_init [OF g])
qed

lemma intersect_axis_result:
  "intersect_axis r state c a res = res \<or>
   (\<exists>i<2. real3_at (ls_dir state) a \<noteq> 0 \<and>
      0 < (rt_grid r ! a ! (c ! a + i) - real3_at (ls_pos state) a) / real3_at (ls_dir state) a \<and>
      is_distance (intersect_axis r state c a res)
        = (rt_grid r ! a ! (c ! a + i) - real3_at (ls_pos state) a) / real3_at (ls_dir state) a)"
proof -
  define i :: nat where "i = (if real3_at (ls_dir state) a > 0 then 1 else 0)"
  define dst where
    "dst = (rt_grid r ! a ! (c ! a + i) - real3_at (ls_pos state) a) / real3_at (ls_dir state) a"
  have i2: "i < 2" by (simp add: i_def)
  have unf: "intersect_axis r state c a res =
     (if real3_at (ls_dir state) a = 0 then res
      else if dst > 0 \<and> dst < is_distance res
           then \<lparr>is_surface = \<lparr>os_id = Some (ragged_right_index (surface_indexer_sizes r)
                                                (a, c ! a + i)),
                                 os_sense = (if real3_at (ls_dir state) a > 0 then inside
                                             else outside)\<rparr>,
                 is_distance = dst\<rparr>
           else res)"
    by (simp only: intersect_axis_def Let_def dst_def i_def)
  show ?thesis
  proof (cases "real3_at (ls_dir state) a \<noteq> 0 \<and> dst > 0 \<and> dst < is_distance res")
    case True
    then have "is_distance (intersect_axis r state c a res) = dst"
      by (simp add: unf)
    with True i2 show ?thesis unfolding dst_def by blast
  next
    case False
    then have "intersect_axis r state c a res = res"
      unfolding unf by presburger
    then show ?thesis by (rule disjI1)
  qed
qed

lemma intersect_axis_keeps_bound:
  assumes "norm3 (ls_dir state) = 1" and "a < 3"
    and "safety r (ls_pos state) (ls_volume state) \<le> is_distance res"
  shows "safety r (ls_pos state) (ls_volume state)
           \<le> is_distance (intersect_axis r state
                 (hyperslab_inverse (dims r) (the (ls_volume state))) a res)"
proof -
  let ?c = "hyperslab_inverse (dims r) (the (ls_volume state))"
  let ?d = "real3_at (ls_dir state) a"
  let ?S = "safety r (ls_pos state) (ls_volume state)"
  from intersect_axis_result [of r state ?c a res] show ?thesis
  proof (elim disjE exE conjE)
    assume "intersect_axis r state ?c a res = res"
    with assms(3) show ?thesis by simp
  next
    fix i
    let ?t = "rt_grid r ! a ! (?c ! a + i)"
    let ?dst = "(?t - real3_at (ls_pos state) a) / ?d"
    assume i: "i < 2" and d: "?d \<noteq> 0" and p: "0 < ?dst"
      and e: "is_distance (intersect_axis r state ?c a res) = ?dst"
    have "?S \<le> \<bar>real3_at (ls_pos state) a - ?t\<bar>"
      by (intro safety_le_plane assms(2) i)
    also have "\<dots> = \<bar>?t - real3_at (ls_pos state) a\<bar>" by simp
    also have "\<dots> \<le> \<bar>?dst\<bar>"
      by (intro abs_le_abs_divide d unit_component_le_1 assms)
    finally have "?S \<le> \<bar>?dst\<bar>" .
    with p have "?S \<le> ?dst" by linarith
    with e show ?thesis by (simp only:)
  qed
qed

lemma safety_le_intersect_impl:
  assumes "norm3 (ls_dir state) = 1"
  shows "safety r (ls_pos state) (ls_volume state)
           \<le> is_distance (intersect_impl r state is_valid)"
proof -
  let ?c = "hyperslab_inverse (dims r) (the (ls_volume state))"
  let ?e = "\<lparr>is_surface = no_surface, is_distance = rt_infinity r\<rparr>"
  have e: "safety r (ls_pos state) (ls_volume state) \<le> is_distance ?e"
    by (simp add: safety_le_infinity)
  have "safety r (ls_pos state) (ls_volume state)
          \<le> is_distance (intersect_axis r state ?c 2
               (intersect_axis r state ?c 1 (intersect_axis r state ?c 0 ?e)))"
    by (intro intersect_axis_keeps_bound assms e) simp_all
  with e show ?thesis by (simp add: intersect_impl_def Let_def)
qed

text \<open>
  Claim C9. For every unit direction the value of \<^verbatim>\<open>safety\<close> at a position is at most the
  distance that \<^verbatim>\<open>intersect\<close> returns from that position along that direction. This holds
  at every position, so in particular at every point strictly inside a cell.
\<close>

theorem safety_le_intersect_distance:
  assumes "norm3 (ls_dir state) = 1"
  shows "safety r (ls_pos state) (ls_volume state) \<le> is_distance (intersect r state)"
  unfolding intersect_def by (rule safety_le_intersect_impl [OF assms])

theorem safety_le_intersect_distance_witness:
  "norm3 (ls_dir (ex_local (3 / 2, 5 / 2, 30) (3 / 5, 4 / 5, 0) (Some 6))) = 1 \<and>
   safety ex_rect (3 / 2, 5 / 2, 30) (Some 6)
     \<le> is_distance (intersect ex_rect (ex_local (3 / 2, 5 / 2, 30) (3 / 5, 4 / 5, 0) (Some 6)))"
proof -
  have h: "norm3 (ls_dir (ex_local (3 / 2, 5 / 2, 30) (3 / 5, 4 / 5, 0) (Some 6))) = 1"
    by (simp add: ex_local_def norm3_def)
  from safety_le_intersect_distance [OF h, of ex_rect] h show ?thesis
    by (simp add: ex_local_def)
qed

lemma safety_intersect_example:
  "safety ex_rect (3 / 2, 5 / 2, 30) (Some 6) = 1 / 2 \<and>
   intersect ex_rect (ex_local (3 / 2, 5 / 2, 30) (3 / 5, 4 / 5, 0) (Some 6))
     = \<lparr>is_surface = \<lparr>os_id = Some 7, os_sense = inside\<rparr>, is_distance = 5 / 8\<rparr>"
  by code_simp

section \<open>Properties of the field propagator\<close>

subsection \<open>Frame properties of the track-view operations\<close>

lemma set_dir_frame:
  "make_lsa p (set_dir p g d) = make_lsa p g"
  "thread (set_dir p g d) = thread g"
  "st_level (states (set_dir p g d)) = st_level (states g)"
  "st_vol (states (set_dir p g d)) = st_vol (states g)"
  "st_universe (states (set_dir p g d)) = st_universe (states g)"
  "st_surf (states (set_dir p g d)) = st_surf (states g)"
  "st_pos (states (set_dir p g d)) = st_pos (states g)"
  "dir p (set_dir p g d) = d"
  "next_step (set_dir p g d) = 0"
  by (simp_all add: set_dir_def Let_def make_lsa_def upd_states_def clear_next_step_def
      set_boundary_def set_dir_lsa_def dir_def)

lemma set_dir_intent:
  "\<not> is_on_boundary p g \<Longrightarrow>
     st_boundary (states (set_dir p g d)) = st_boundary (states g)"
  by (simp add: set_dir_def Let_def upd_states_def clear_next_step_def set_dir_lsa_def)

lemma move_internal_frame:
  "make_lsa p (move_internal p g x) = make_lsa p g"
  "thread (move_internal p g x) = thread g"
  "st_level (states (move_internal p g x)) = st_level (states g)"
  "st_vol (states (move_internal p g x)) = st_vol (states g)"
  "st_universe (states (move_internal p g x)) = st_universe (states g)"
  "st_boundary (states (move_internal p g x)) = st_boundary (states g)"
  "st_dir (states (move_internal p g x)) = st_dir (states g)"
  "pos p (move_internal p g x) = x"
  "surface_id p (move_internal p g x) = None"
  "next_step (move_internal p g x) = 0"
  by (simp_all add: move_internal_def Let_def make_lsa_def upd_states_def clear_next_step_def
      set_surf_def set_pos_def pos_def surface_id_def)

lemma move_to_boundary_frame:
  "make_lsa p (move_to_boundary p g) = make_lsa p g"
  "thread (move_to_boundary p g) = thread g"
  "st_level (states (move_to_boundary p g)) = st_level (states g)"
  "st_vol (states (move_to_boundary p g)) = st_vol (states g)"
  "st_universe (states (move_to_boundary p g)) = st_universe (states g)"
  "st_boundary (states (move_to_boundary p g)) = st_boundary (states g)"
  "st_dir (states (move_to_boundary p g)) = st_dir (states g)"
  "pos p (move_to_boundary p g) = axpy (next_step g) (dir p g) (pos p g)"
  "surface_id p (move_to_boundary p g) = os_id (next_surface g)"
  by (simp_all add: move_to_boundary_def Let_def make_lsa_def upd_states_def clear_next_step_def
      set_surf_def set_pos_def set_sense_def pos_def dir_def surface_id_def)

lemma find_next_step_loop_bounds:
  assumes "find_next_step_loop p v max_step cur nxt m s u level = Some r"
  shows "fst r \<le> m \<and>
         ((\<forall>w ls. lo \<le> is_distance (tr_intersect p w ls max_step)) \<longrightarrow> lo \<le> m \<longrightarrow> lo \<le> fst r)"
proof (rule find_next_step_loop.raw_induct
    [where P = "\<lambda>p v max_step cur nxt m s u level r. fst r \<le> m \<and>
         ((\<forall>w ls. lo \<le> is_distance (tr_intersect p w ls max_step)) \<longrightarrow> lo \<le> m \<longrightarrow> lo \<le> fst r)",
     OF _ assms])
  fix f p v max_step cur nxt and m :: real and s u level r
  let ?d = "is_distance (tr_intersect p nxt (make_local_state p v level) max_step)"
  let ?m = "if ?d < m then ?d else m"
  assume IH: "\<And>p v max_step cur nxt m s u level r.
      f p v max_step cur nxt m s u level = Some r \<Longrightarrow>
      fst r \<le> m \<and>
      ((\<forall>w ls. lo \<le> is_distance (tr_intersect p w ls max_step)) \<longrightarrow> lo \<le> m \<longrightarrow> lo \<le> fst r)"
    and hyp: "(let check_uid = nxt;
          isect = tr_intersect p check_uid (make_local_state p v level) max_step;
          hit = (is_distance isect < m);
          min_step' = (if hit then is_distance isect else m);
          min_surface_local' = (if hit then is_surface isect else s);
          min_uid' = (if hit then check_uid else u);
          next_check_uid' = daughter p (st_vol (states v) (lsa_index p (thread v) level))
      in if check_uid \<noteq> cur
         then f p v max_step cur next_check_uid' min_step' min_surface_local' min_uid' (level + 1)
         else Some (min_step', min_surface_local', min_uid')) = Some r"
  have le: "?m \<le> m" by simp
  have lo: "(\<forall>w ls. lo \<le> is_distance (tr_intersect p w ls max_step)) \<longrightarrow> lo \<le> m \<longrightarrow> lo \<le> ?m"
    by simp
  show "fst r \<le> m \<and>
      ((\<forall>w ls. lo \<le> is_distance (tr_intersect p w ls max_step)) \<longrightarrow> lo \<le> m \<longrightarrow> lo \<le> fst r)"
  proof (cases "nxt \<noteq> cur")
    case True
    with hyp obtain s1 u1 nx1 where
      "f p v max_step cur nx1 ?m s1 u1 (level + 1) = Some r"
      by (simp add: Let_def)
    from IH [OF this] le lo show ?thesis by auto
  next
    case False
    with hyp have "fst r = ?m" by (auto simp: Let_def)
    with le lo show ?thesis by simp
  qed
qed

lemma find_next_step_impl_frame:
  assumes "find_next_step_impl p v max_step = Some v'"
  shows "states v' = states v" and "thread v' = thread v" and "next_step v' \<le> max_step"
    and "(\<forall>w ls. lo \<le> is_distance (tr_intersect p w ls max_step)) \<Longrightarrow> lo \<le> max_step
           \<Longrightarrow> lo \<le> next_step v'"
proof -
  from assms obtain r where
    l: "find_next_step_loop p v max_step (st_universe (states v) (make_lsa p v))
          (top_universe_id p) max_step no_surface None 0 = Some r"
    and v': "v' = v\<lparr>next_step := fst r,
               next_surface :=
                 (if snd (snd r) \<noteq> None
                  then \<lparr>os_id = global_surface p (snd (snd r)) (os_id (fst (snd r))),
                        os_sense = os_sense (fst (snd r))\<rparr>
                  else fst (snd r))\<rparr>"
    by (auto simp: find_next_step_impl_def bind_eq_Some_conv split: prod.splits)
  from v' show "states v' = states v" and "thread v' = thread v" by simp_all
  from find_next_step_loop_bounds [OF l, of lo] v'
  show "next_step v' \<le> max_step"
    and "(\<forall>w ls. lo \<le> is_distance (tr_intersect p w ls max_step)) \<Longrightarrow> lo \<le> max_step
           \<Longrightarrow> lo \<le> next_step v'"
    by simp_all
qed

lemma find_next_step_max_frame:
  assumes "find_next_step_max p g m = Some (res, g')"
  shows "states g' = states g" and "thread g' = thread g"
  using assms
  by (auto simp: find_next_step_max_def bind_eq_Some_conv clear_next_step_def Let_def
      dest: find_next_step_impl_frame(1,2) split: if_splits)



lemma set_dir_on_boundary: "is_on_boundary p (set_dir p g d) = is_on_boundary p g"
  by (simp add: is_on_boundary_def surface_id_def set_dir_frame)

lemma move_internal_off: "\<not> is_on_boundary p (move_internal p g x)"
  by (simp add: is_on_boundary_def move_internal_frame)

lemma move_to_boundary_on: "is_on_boundary p (move_to_boundary p g) = on_surface (next_surface g)"
  by (simp add: is_on_boundary_def on_surface_def move_to_boundary_frame)

subsection \<open>The substep loop\<close>

lemma substep_loop_rule:
  assumes run: "substep_loop p drv step s = Some s'"
    and init: "T s"
    and body: "\<And>a b. T a \<Longrightarrow> substep p drv step a = Some b \<Longrightarrow> Q b"
    and cont: "\<And>b. Q b \<Longrightarrow> minimum_step drv \<le> remaining b \<Longrightarrow> 0 < remaining_substeps b \<Longrightarrow> T b"
  shows "Q s' \<and> \<not> (minimum_step drv \<le> remaining s' \<and> 0 < remaining_substeps s')"
proof -
  have "p = p \<and> drv = drv \<and> step = step \<longrightarrow> T s \<longrightarrow>
        Q s' \<and> \<not> (minimum_step drv \<le> remaining s' \<and> 0 < remaining_substeps s')"
  proof (rule substep_loop.raw_induct
      [where P = "\<lambda>p' drv' step' a b. p' = p \<and> drv' = drv \<and> step' = step \<longrightarrow> T a \<longrightarrow>
           Q b \<and> \<not> (minimum_step drv \<le> remaining b \<and> 0 < remaining_substeps b)",
       OF _ run])
    fix f p' drv' step' a y
    assume IH: "\<And>p' drv' step' a b. f p' drv' step' a = Some b \<Longrightarrow>
        p' = p \<and> drv' = drv \<and> step' = step \<longrightarrow> T a \<longrightarrow>
        Q b \<and> \<not> (minimum_step drv \<le> remaining b \<and> 0 < remaining_substeps b)"
      and hyp: "do {
          s' \<leftarrow> substep p' drv' step' a;
          if minimum_step drv' \<le> remaining s' \<and> 0 < remaining_substeps s'
          then f p' drv' step' s' else Some s'
        } = Some y"
    show "p' = p \<and> drv' = drv \<and> step' = step \<longrightarrow> T a \<longrightarrow>
        Q y \<and> \<not> (minimum_step drv \<le> remaining y \<and> 0 < remaining_substeps y)"
    proof (intro impI)
      assume e: "p' = p \<and> drv' = drv \<and> step' = step" and t: "T a"
      from hyp e obtain b where b: "substep p drv step a = Some b"
        and r: "(if minimum_step drv \<le> remaining b \<and> 0 < remaining_substeps b
                 then f p drv step b else Some b) = Some y"
        by (auto simp: bind_eq_Some_conv)
      from body [OF t b] have q: "Q b" .
      show "Q y \<and> \<not> (minimum_step drv \<le> remaining y \<and> 0 < remaining_substeps y)"
      proof (cases "minimum_step drv \<le> remaining b \<and> 0 < remaining_substeps b")
        case True
        with r have "f p drv step b = Some y" by simp
        from IH [OF this] cont [OF q] True show ?thesis by blast
      next
        case False
        with r have "y = b" by simp
        with q False show ?thesis by simp
      qed
    qed
  qed
  with init show ?thesis by simp
qed

lemma substepE:
  assumes "substep p drv step s = Some s'"
  obtains lin geo where
    "find_next_step_max p
       (set_dir p (lp_geo s)
          (ch_dir (make_chord (ode_pos (lp_state s))
             (ode_pos (dr_state (advance drv (remaining s) (lp_state s)))))))
       (ch_length (make_chord (ode_pos (lp_state s))
             (ode_pos (dr_state (advance drv (remaining s) (lp_state s)))))
          + delta_intersection drv) = Some (lin, geo)"
    and "s' = dispatch p drv step s (advance drv (remaining s) (lp_state s))
               (make_chord (ode_pos (lp_state s))
                  (ode_pos (dr_state (advance drv (remaining s) (lp_state s)))))
               lin geo"
proof -
  from assms obtain x where
    "find_next_step_max p
       (set_dir p (lp_geo s)
          (ch_dir (make_chord (ode_pos (lp_state s))
             (ode_pos (dr_state (advance drv (remaining s) (lp_state s)))))))
       (ch_length (make_chord (ode_pos (lp_state s))
             (ode_pos (dr_state (advance drv (remaining s) (lp_state s)))))
          + delta_intersection drv) = Some x"
    and "s' = dispatch p drv step s (advance drv (remaining s) (lp_state s))
               (make_chord (ode_pos (lp_state s))
                  (ode_pos (dr_state (advance drv (remaining s) (lp_state s)))))
               (fst x) (snd x)"
    unfolding substep_def Let_def bind_eq_Some_conv by (auto split: prod.splits)
  then show ?thesis by (intro that [of "fst x" "snd x"]) simp_all
qed

lemma dispatch_accept:
  assumes "\<not> boundary lin"
  shows "dispatch p drv step s sub chord lin geo =
     \<lparr>lp_result = \<lparr>distance = distance (lp_result s) + min (dr_step sub) (remaining s),
                    boundary = False\<rparr>,
      remaining = step - (distance (lp_result s) + min (dr_step sub) (remaining s)),
      remaining_substeps = remaining_substeps s - 1,
      lp_state = dr_state sub,
      lp_geo = move_internal p geo (ode_pos (dr_state sub))\<rparr>"
  using assms unfolding dispatch_def Let_def by (rule if_P [OF _])

lemma dispatch_reentry:
  assumes "boundary lin" and "boundary (lp_result s) \<and> distance lin < bump_distance drv"
  shows "dispatch p drv step s sub chord lin geo = s\<lparr>remaining := dr_step sub / 2, lp_geo := geo\<rparr>"
  using assms unfolding dispatch_def Let_def by (simp only: not_True_eq_False if_False if_True simp_thms)

lemma dispatch_near:
  assumes "boundary lin" and "\<not> (boundary (lp_result s) \<and> distance lin < bump_distance drv)"
    and "dr_step sub * distance lin \<le> minimum_step drv * ch_length chord"
  shows "dispatch p drv step s sub chord lin geo =
     \<lparr>lp_result = \<lparr>distance = distance (lp_result s) + min (distance lin) (remaining s),
                    boundary = True\<rparr>,
      remaining = 0,
      remaining_substeps = remaining_substeps s,
      lp_state = (lp_state s)\<lparr>ode_mom := ode_mom (dr_state sub)\<rparr>,
      lp_geo = geo\<rparr>"
  using assms unfolding dispatch_def Let_def by (simp only: if_False if_True simp_thms)

lemma dispatch_close:
  assumes "boundary lin" and "\<not> (boundary (lp_result s) \<and> distance lin < bump_distance drv)"
    and "\<not> dr_step sub * distance lin \<le> minimum_step drv * ch_length chord"
    and "is_intercept_close (ode_pos (lp_state s)) (ch_dir chord) (distance lin)
           (ode_pos (dr_state sub)) (delta_intersection drv)"
  shows "dispatch p drv step s sub chord lin geo =
     \<lparr>lp_result = \<lparr>distance = distance (lp_result s)
                      + (dr_step sub - calc_miss_distance (ode_pos (lp_state s)) (ch_dir chord)
                                         (distance lin) (ode_pos (dr_state sub))),
                    boundary = True\<rparr>,
      remaining = 0,
      remaining_substeps = remaining_substeps s,
      lp_state = (lp_state s)\<lparr>ode_mom := ode_mom (dr_state sub)\<rparr>,
      lp_geo = geo\<rparr>"
  using assms unfolding dispatch_def Let_def by (simp only: if_False if_True simp_thms)

lemma dispatch_refine:
  assumes "boundary lin" and "\<not> (boundary (lp_result s) \<and> distance lin < bump_distance drv)"
    and "\<not> dr_step sub * distance lin \<le> minimum_step drv * ch_length chord"
    and "\<not> is_intercept_close (ode_pos (lp_state s)) (ch_dir chord) (distance lin)
           (ode_pos (dr_state sub)) (delta_intersection drv)"
  shows "dispatch p drv step s sub chord lin geo =
     s\<lparr>remaining := dr_step sub * distance lin / ch_length chord, lp_geo := geo\<rparr>"
  using assms unfolding dispatch_def Let_def by (simp only: if_False if_True simp_thms)

lemma dispatch_cases:
  obtains (accept) "\<not> boundary lin"
    "dispatch p drv step s sub chord lin geo =
     \<lparr>lp_result = \<lparr>distance = distance (lp_result s) + min (dr_step sub) (remaining s),
                    boundary = False\<rparr>,
      remaining = step - (distance (lp_result s) + min (dr_step sub) (remaining s)),
      remaining_substeps = remaining_substeps s - 1,
      lp_state = dr_state sub,
      lp_geo = move_internal p geo (ode_pos (dr_state sub))\<rparr>"
  | (reentry) "boundary lin" "boundary (lp_result s)" "distance lin < bump_distance drv"
    "dispatch p drv step s sub chord lin geo = s\<lparr>remaining := dr_step sub / 2, lp_geo := geo\<rparr>"
  | (near) "boundary lin" "\<not> (boundary (lp_result s) \<and> distance lin < bump_distance drv)"
    "dr_step sub * distance lin \<le> minimum_step drv * ch_length chord"
    "dispatch p drv step s sub chord lin geo =
     \<lparr>lp_result = \<lparr>distance = distance (lp_result s) + min (distance lin) (remaining s),
                    boundary = True\<rparr>,
      remaining = 0,
      remaining_substeps = remaining_substeps s,
      lp_state = (lp_state s)\<lparr>ode_mom := ode_mom (dr_state sub)\<rparr>,
      lp_geo = geo\<rparr>"
  | (close) "boundary lin" "\<not> (boundary (lp_result s) \<and> distance lin < bump_distance drv)"
    "minimum_step drv * ch_length chord < dr_step sub * distance lin"
    "is_intercept_close (ode_pos (lp_state s)) (ch_dir chord) (distance lin)
           (ode_pos (dr_state sub)) (delta_intersection drv)"
    "dispatch p drv step s sub chord lin geo =
     \<lparr>lp_result = \<lparr>distance = distance (lp_result s)
                      + (dr_step sub - calc_miss_distance (ode_pos (lp_state s)) (ch_dir chord)
                                         (distance lin) (ode_pos (dr_state sub))),
                    boundary = True\<rparr>,
      remaining = 0,
      remaining_substeps = remaining_substeps s,
      lp_state = (lp_state s)\<lparr>ode_mom := ode_mom (dr_state sub)\<rparr>,
      lp_geo = geo\<rparr>"
  | (refine) "boundary lin" "\<not> (boundary (lp_result s) \<and> distance lin < bump_distance drv)"
    "minimum_step drv * ch_length chord < dr_step sub * distance lin"
    "\<not> is_intercept_close (ode_pos (lp_state s)) (ch_dir chord) (distance lin)
           (ode_pos (dr_state sub)) (delta_intersection drv)"
    "dispatch p drv step s sub chord lin geo =
     s\<lparr>remaining := dr_step sub * distance lin / ch_length chord, lp_geo := geo\<rparr>"
proof (cases "boundary lin")
  case False
  from dispatch_accept [OF this] False show ?thesis by (rule accept [rotated])
next
  case hit: True
  show ?thesis
  proof (cases "boundary (lp_result s) \<and> distance lin < bump_distance drv")
    case True
    from dispatch_reentry [OF hit True] hit True show ?thesis by (intro reentry) simp_all
  next
    case nb: False
    show ?thesis
    proof (cases "dr_step sub * distance lin \<le> minimum_step drv * ch_length chord")
      case True
      from dispatch_near [OF hit nb True] show ?thesis by (intro near hit nb True)
    next
      case far: False
      then have far': "minimum_step drv * ch_length chord < dr_step sub * distance lin" by simp
      show ?thesis
      proof (cases "is_intercept_close (ode_pos (lp_state s)) (ch_dir chord) (distance lin)
           (ode_pos (dr_state sub)) (delta_intersection drv)")
        case True
        from dispatch_close [OF hit nb far True] show ?thesis by (intro close hit nb far' True)
      next
        case False
        from dispatch_refine [OF hit nb far False] show ?thesis
          by (intro refine hit nb far' False)
      qed
    qed
  qed
qed

lemma dispatch_pos:
  assumes "ode_pos (lp_state s) = pos p geo"
  shows "ode_pos (lp_state (dispatch p drv step s sub chord lin geo))
           = pos p (lp_geo (dispatch p drv step s sub chord lin geo))"
proof (cases rule: dispatch_cases [of lin p drv step s sub chord geo])
  case accept
  show ?thesis unfolding accept(2) by (simp add: move_internal_frame)
next
  case reentry
  show ?thesis unfolding reentry(4) by (simp add: assms)
next
  case near
  show ?thesis unfolding near(4) by (simp add: assms)
next
  case close
  show ?thesis unfolding close(5) by (simp add: assms)
next
  case refine
  show ?thesis unfolding refine(5) by (simp add: assms)
qed

lemma pos_cong:
  "states g' = states g \<Longrightarrow> thread g' = thread g \<Longrightarrow> pos p g' = pos p g"
  by (simp add: pos_def make_lsa_def)

lemma set_dir_pos: "pos p (set_dir p g d) = pos p g"
  by (simp add: pos_def set_dir_frame)

lemma substep_pos:
  assumes "substep p drv step s = Some s'" and "ode_pos (lp_state s) = pos p (lp_geo s)"
  shows "ode_pos (lp_state s') = pos p (lp_geo s')"
proof -
  from assms(1) obtain lin geo where
    f: "find_next_step_max p
       (set_dir p (lp_geo s)
          (ch_dir (make_chord (ode_pos (lp_state s))
             (ode_pos (dr_state (advance drv (remaining s) (lp_state s)))))))
       (ch_length (make_chord (ode_pos (lp_state s))
             (ode_pos (dr_state (advance drv (remaining s) (lp_state s)))))
          + delta_intersection drv) = Some (lin, geo)"
    and s': "s' = dispatch p drv step s (advance drv (remaining s) (lp_state s))
               (make_chord (ode_pos (lp_state s))
                  (ode_pos (dr_state (advance drv (remaining s) (lp_state s)))))
               lin geo"
    by (rule substepE)
  have "pos p geo = pos p (set_dir p (lp_geo s)
          (ch_dir (make_chord (ode_pos (lp_state s))
             (ode_pos (dr_state (advance drv (remaining s) (lp_state s)))))))"
    by (rule pos_cong [OF find_next_step_max_frame [OF f]])
  then have "pos p geo = pos p (lp_geo s)" by (simp only: set_dir_pos)
  with assms(2) show ?thesis unfolding s' by (intro dispatch_pos) simp
qed

lemma substep_loop_pos:
  assumes "substep_loop p drv step s = Some s'" and "ode_pos (lp_state s) = pos p (lp_geo s)"
  shows "ode_pos (lp_state s') = pos p (lp_geo s')"
proof -
  let ?I = "\<lambda>a. ode_pos (lp_state a) = pos p (lp_geo a)"
  have "?I s' \<and> \<not> (minimum_step drv \<le> remaining s' \<and> 0 < remaining_substeps s')"
  proof (rule substep_loop_rule [OF assms(1), where T = ?I and Q = ?I])
    show "?I s" by (rule assms(2))
  next
    fix a b
    assume a: "?I a" and b: "substep p drv step a = Some b"
    show "?I b" by (rule substep_pos [OF b a])
  next
    fix b
    assume "?I b"
    then show "?I b" .
  qed
  then show ?thesis by (rule conjunct1)
qed


lemma finish_step_stuck:
  assumes "distance (lp_result s) = 0"
  shows "finish_step p drv step s =
     s\<lparr>lp_geo := move_internal p
                   (set_dir p (lp_geo s) (normalize_direction (ode_mom (lp_state s))))
                   (axpy (min (bump_distance drv) step)
                      (normalize_direction (ode_mom (lp_state s))) (ode_pos (lp_state s))),
       lp_result := \<lparr>distance = min (bump_distance drv) step, boundary = False\<rparr>,
       lp_state := (lp_state s)\<lparr>ode_pos := axpy (min (bump_distance drv) step)
                      (normalize_direction (ode_mom (lp_state s))) (ode_pos (lp_state s))\<rparr>\<rparr>"
proof -
  have n: "\<not> 0 < distance (lp_result s)" using assms by simp
  show ?thesis
    unfolding finish_step_def Let_def if_not_P [OF n]
    by (simp add: assms)
qed

lemma move_internal_dir: "dir p (move_internal p g x) = dir p g"
  by (simp add: dir_def move_internal_frame)

lemma finish_step_landed:
  assumes "0 < distance (lp_result s)" and "boundary (lp_result s)"
  shows "lp_result (finish_step p drv step s) = lp_result s"
    and "lp_geo (finish_step p drv step s)
           = set_dir p (move_to_boundary p (lp_geo s)) (normalize_direction (ode_mom (lp_state s)))"
  using assms by (simp_all add: finish_step_def Let_def)

lemma finish_step_mom:
  "ode_mom (lp_state (finish_step p drv step s)) = ode_mom (lp_state s)"
  by (simp add: finish_step_def Let_def)

lemma finish_step_dir:
  "dir p (lp_geo (finish_step p drv step s)) = normalize_direction (ode_mom (lp_state s))"
  by (simp add: finish_step_def Let_def move_internal_dir set_dir_frame)

text \<open>
  Claim C3. When the substep loop ends with an accumulated distance of 0, the propagator
  returns the distance \<open>min(bump_distance, step)\<close> with the boundary flag cleared. The
  position of the ODE state and the position of the navigator (equal at entry, as the
  constructor makes them) have both advanced by that distance along the direction that
  was just derived from the momentum, this direction is the one of the navigator, and the
  track is off the boundary.
\<close>

theorem stuck_track_escape:
  assumes "substep_loop p (fp_driver fp) step (initial_substepping p fp step) = Some s"
    and "distance (lp_result s) = 0"
    and "ode_pos (fp_state fp) = pos p (fp_geo fp)"
    and "d = normalize_direction (ode_mom (lp_state s))"
    and "bump = min (bump_distance (fp_driver fp)) step"
  shows "\<exists>fp'. propagate p fp step = Some (\<lparr>distance = bump, boundary = False\<rparr>, fp')
           \<and> ode_pos (fp_state fp') = axpy bump d (ode_pos (lp_state s))
           \<and> pos p (fp_geo fp') = axpy bump d (pos p (lp_geo s))
           \<and> dir p (fp_geo fp') = d
           \<and> \<not> is_on_boundary p (fp_geo fp')"
proof -
  have i: "ode_pos (lp_state (initial_substepping p fp step))
             = pos p (lp_geo (initial_substepping p fp step))"
    using assms(3) by (simp add: initial_substepping_def)
  have e: "ode_pos (lp_state s) = pos p (lp_geo s)"
    by (rule substep_loop_pos [OF assms(1) i])
  let ?g = "move_internal p (set_dir p (lp_geo s) d) (axpy bump d (ode_pos (lp_state s)))"
  have f: "finish_step p (fp_driver fp) step s =
     s\<lparr>lp_geo := ?g, lp_result := \<lparr>distance = bump, boundary = False\<rparr>,
       lp_state := (lp_state s)\<lparr>ode_pos := axpy bump d (ode_pos (lp_state s))\<rparr>\<rparr>"
    unfolding assms(4,5) by (rule finish_step_stuck [OF assms(2)])
  have "propagate p fp step
      = Some (\<lparr>distance = bump, boundary = False\<rparr>,
              fp\<lparr>fp_state := (lp_state s)\<lparr>ode_pos := axpy bump d (ode_pos (lp_state s))\<rparr>,
                 fp_geo := ?g\<rparr>)"
    by (simp add: propagate_def assms(1) f)
  moreover have "pos p ?g = axpy bump d (pos p (lp_geo s))"
    by (simp add: move_internal_frame e)
  moreover have "dir p ?g = d"
    by (simp only: move_internal_dir set_dir_frame)
  moreover have "\<not> is_on_boundary p ?g"
    by (simp add: is_on_boundary_def move_internal_frame)
  ultimately show ?thesis by simp
qed

subsection \<open>The example driver and geometry\<close>

lemma norm3_x [simp]: "norm3 (a, 0, 0) = \<bar>a\<bar>"
  by (simp add: norm3_def)

lemma ex_propagator_eq:
  "ex_propagator = \<lparr>fp_driver = ex_driver, fp_geo = ex_view 0,
                     fp_state = \<lparr>ode_pos = (1, 2, 3), ode_mom = (1, 0, 0)\<rparr>\<rparr>"
  by (simp add: ex_propagator_def make_field_propagator_def pos_def dir_def make_lsa_def
      lsa_index_def ex_view_def ex_states_def ex_params_def)

lemma ex_initial:
  "initial_substepping ex_params ex_propagator 3 =
     \<lparr>lp_result = \<lparr>distance = 0, boundary = True\<rparr>, remaining = 3, remaining_substeps = 128,
      lp_state = \<lparr>ode_pos = (1, 2, 3), ode_mom = (1, 0, 0)\<rparr>, lp_geo = ex_view 0\<rparr>"
  by (simp add: initial_substepping_def ex_propagator_eq max_substeps_def is_on_boundary_def
      surface_id_def make_lsa_def lsa_index_def ex_view_def ex_states_def ex_params_def)

lemma ex_chord:
  "make_chord (1, 2, 3) ((4, 2, 3)) = \<lparr>ch_length = 3, ch_dir = (1, 0, 0)\<rparr>"
  by (simp add: make_chord_def Let_def)

lemma ex_set_dir: "set_dir ex_params (ex_view 0) (1, 0, 0) = ex_view 0"
  by (simp add: set_dir_def Let_def is_on_boundary_def surface_id_def pos_def dir_def
      make_lsa_def lsa_index_def upd_states_def set_dir_lsa_def clear_next_step_def
      ex_view_def ex_states_def ex_params_def fun_upd_idem_iff)

lemma ex_view_fields:
  "make_lsa ex_params (ex_view 0) = 0"
  "st_boundary (states (ex_view 0)) 0 = exiting"
  "next_step (ex_view 0) = 0"
  "next_surface (ex_view 0) = no_surface"
  "clear_next_step (ex_view 0) = ex_view 0"
  by (simp_all add: make_lsa_def lsa_index_def ex_view_def ex_states_def ex_params_def
      clear_next_step_def)

lemma ex_find:
  "find_next_step_max ex_params (ex_view 0) (31 / 10)
     = Some (\<lparr>distance = 1, boundary = True\<rparr>,
             (ex_view 0)\<lparr>next_step := 1, next_surface := \<lparr>os_id = Some 3, os_sense = inside\<rparr>\<rparr>)"
proof -
  have i: "find_next_step_impl ex_params (ex_view 0) (31 / 10)
     = Some ((ex_view 0)\<lparr>next_step := 1, next_surface := \<lparr>os_id = Some 3, os_sense = inside\<rparr>\<rparr>)"
    unfolding find_next_step_impl_def ex_view_fields
    by (subst find_next_step_loop.simps)
       (simp add: Let_def ex_view_def ex_states_def ex_params_def)
  show ?thesis
    unfolding find_next_step_max_def ex_view_fields
    by (simp add: i ex_view_fields has_next_step_def on_surface_def no_surface_def)
qed

lemma ex_substep:
  "substep ex_params ex_driver 3 (initial_substepping ex_params ex_propagator 3)
     = Some ((initial_substepping ex_params ex_propagator 3)
              \<lparr>remaining := 3 / 2,
               lp_geo := (ex_view 0)\<lparr>next_step := 1,
                            next_surface := \<lparr>os_id = Some 3, os_sense = inside\<rparr>\<rparr>\<rparr>)"
proof -
  have a: "advance ex_driver 3 \<lparr>ode_pos = (1, 2, 3), ode_mom = (1, 0, 0)\<rparr>
      = \<lparr>dr_state = \<lparr>ode_pos = (4, 2, 3), ode_mom = (2, 0, 0)\<rparr>, dr_step = 3\<rparr>"
    by (simp add: ex_driver_def)
  have d: "delta_intersection ex_driver = 1 / 10" "bump_distance ex_driver = 2"
    by (simp_all add: ex_driver_def bump_distance_def)
  have "substep ex_params ex_driver 3 (initial_substepping ex_params ex_propagator 3)
     = Some (dispatch ex_params ex_driver 3 (initial_substepping ex_params ex_propagator 3)
          \<lparr>dr_state = \<lparr>ode_pos = (4, 2, 3), ode_mom = (2, 0, 0)\<rparr>, dr_step = 3\<rparr>
          \<lparr>ch_length = 3, ch_dir = (1, 0, 0)\<rparr> \<lparr>distance = 1, boundary = True\<rparr>
          ((ex_view 0)\<lparr>next_step := 1, next_surface := \<lparr>os_id = Some 3, os_sense = inside\<rparr>\<rparr>))"
    unfolding substep_def Let_def ex_initial
    by (simp add: a ex_chord ex_set_dir d ex_find)
  also have "dispatch ex_params ex_driver 3 (initial_substepping ex_params ex_propagator 3)
          \<lparr>dr_state = \<lparr>ode_pos = (4, 2, 3), ode_mom = (2, 0, 0)\<rparr>, dr_step = 3\<rparr>
          \<lparr>ch_length = 3, ch_dir = (1, 0, 0)\<rparr> \<lparr>distance = 1, boundary = True\<rparr>
          ((ex_view 0)\<lparr>next_step := 1, next_surface := \<lparr>os_id = Some 3, os_sense = inside\<rparr>\<rparr>)
      = (initial_substepping ex_params ex_propagator 3)
              \<lparr>remaining := 3 / 2,
               lp_geo := (ex_view 0)\<lparr>next_step := 1,
                            next_surface := \<lparr>os_id = Some 3, os_sense = inside\<rparr>\<rparr>\<rparr>"
    by (subst dispatch_reentry) (simp_all add: ex_initial d)
  finally show ?thesis .
qed

lemma ex_loop:
  "substep_loop ex_params ex_driver 3 (initial_substepping ex_params ex_propagator 3)
     = Some ((initial_substepping ex_params ex_propagator 3)
              \<lparr>remaining := 3 / 2,
               lp_geo := (ex_view 0)\<lparr>next_step := 1,
                            next_surface := \<lparr>os_id = Some 3, os_sense = inside\<rparr>\<rparr>\<rparr>)"
  by (subst substep_loop.simps) (simp add: ex_substep, simp add: ex_driver_def)

lemma ex_driver_fields:
  "minimum_step ex_driver = 2" "delta_intersection ex_driver = 1 / 10"
  "dr_step (advance ex_driver r s) = r"
  "ode_pos (dr_state (advance ex_driver r s)) = axpy r (1, 0, 0) (ode_pos s)"
  "ode_mom (dr_state (advance ex_driver r s)) = ax 2 (ode_mom s)"
  "fp_driver ex_propagator = ex_driver"
  by (simp_all add: ex_driver_def ex_propagator_def make_field_propagator_def)

lemma ex_propagate:
  "\<exists>fp'. propagate ex_params ex_propagator 3 = Some (\<lparr>distance = 2, boundary = False\<rparr>, fp')
     \<and> ode_pos (fp_state fp') = (3, 2, 3) \<and> ode_mom (fp_state fp') = (1, 0, 0)
     \<and> pos ex_params (fp_geo fp') = (3, 2, 3) \<and> dir ex_params (fp_geo fp') = (1, 0, 0)
     \<and> \<not> is_on_boundary ex_params (fp_geo fp')"
proof -
  let ?s = "(initial_substepping ex_params ex_propagator 3)
              \<lparr>remaining := 3 / 2,
               lp_geo := (ex_view 0)\<lparr>next_step := 1,
                            next_surface := \<lparr>os_id = Some 3, os_sense = inside\<rparr>\<rparr>\<rparr>"
  have z: "distance (lp_result ?s) = 0" by (simp add: ex_initial)
  have n: "normalize_direction (ode_mom (lp_state ?s)) = (1, 0, 0)"
    by (simp add: ex_initial)
  have b: "min (bump_distance ex_driver) 3 = 2"
    by (simp add: bump_distance_def ex_driver_fields)
  let ?g = "move_internal ex_params
              (set_dir ex_params (lp_geo ?s) (1, 0, 0)) (axpy 2 (1, 0, 0) (ode_pos (lp_state ?s)))"
  have f: "finish_step ex_params ex_driver 3 ?s =
     ?s\<lparr>lp_geo := ?g, lp_result := \<lparr>distance = 2, boundary = False\<rparr>,
        lp_state := (lp_state ?s)\<lparr>ode_pos := axpy 2 (1, 0, 0) (ode_pos (lp_state ?s))\<rparr>\<rparr>"
    using finish_step_stuck [OF z, of ex_params ex_driver 3] by (simp only: n b)
  have "propagate ex_params ex_propagator 3
      = Some (\<lparr>distance = 2, boundary = False\<rparr>,
              ex_propagator\<lparr>fp_state := (lp_state ?s)\<lparr>ode_pos := axpy 2 (1, 0, 0) (ode_pos (lp_state ?s))\<rparr>,
                 fp_geo := ?g\<rparr>)"
    by (simp add: propagate_def ex_driver_fields(6) ex_loop f)
  moreover have "pos ex_params ?g = (3, 2, 3)"
    by (simp add: move_internal_frame ex_initial)
  moreover have "dir ex_params ?g = (1, 0, 0)"
    by (simp only: move_internal_dir set_dir_frame)
  moreover have "\<not> is_on_boundary ex_params ?g" by (rule move_internal_off)
  ultimately show ?thesis by (simp add: ex_initial)
qed

theorem stuck_track_escape_witness:
  "\<exists>fp'. propagate ex_params ex_propagator 3 = Some (\<lparr>distance = 2, boundary = False\<rparr>, fp')
     \<and> ode_pos (fp_state fp') = (3, 2, 3)
     \<and> pos ex_params (fp_geo fp') = (3, 2, 3)
     \<and> dir ex_params (fp_geo fp') = (1, 0, 0)
     \<and> \<not> is_on_boundary ex_params (fp_geo fp')"
proof -
  let ?s = "(initial_substepping ex_params ex_propagator 3)
              \<lparr>remaining := 3 / 2,
               lp_geo := (ex_view 0)\<lparr>next_step := 1,
                            next_surface := \<lparr>os_id = Some 3, os_sense = inside\<rparr>\<rparr>\<rparr>"
  have h1: "substep_loop ex_params (fp_driver ex_propagator) 3
              (initial_substepping ex_params ex_propagator 3) = Some ?s"
    by (simp only: ex_driver_fields ex_loop)
  have h2: "distance (lp_result ?s) = 0" by (simp add: ex_initial)
  have h3: "ode_pos (fp_state ex_propagator) = pos ex_params (fp_geo ex_propagator)"
    by (simp add: ex_propagator_def make_field_propagator_def)
  have h4: "(1, 0, 0) = normalize_direction (ode_mom (lp_state ?s))"
    by (simp add: ex_initial)
  have h5: "2 = min (bump_distance (fp_driver ex_propagator)) 3"
    by (simp add: bump_distance_def ex_driver_fields)
  have e: "axpy 2 (1, 0, 0) (ode_pos (lp_state ?s)) = (3, 2, 3)"
    "axpy 2 (1, 0, 0) (pos ex_params (lp_geo ?s)) = (3, 2, 3)"
    unfolding ex_initial
    by (simp_all add: pos_def make_lsa_def lsa_index_def ex_view_def ex_states_def
        ex_params_def)
  from stuck_track_escape [OF h1 h2 h3 h4 h5] show ?thesis by (simp only: e)
qed

subsection \<open>The substep budget\<close>

lemma dispatch_substeps:
  "remaining_substeps (dispatch p drv step s sub chord lin geo)
     = (if boundary lin then remaining_substeps s else remaining_substeps s - 1)"
proof (cases rule: dispatch_cases [of lin p drv step s sub chord geo])
  case accept
  show ?thesis unfolding accept(2) using accept(1) by simp
next
  case reentry
  show ?thesis unfolding reentry(4) using reentry(1) by simp
next
  case near
  show ?thesis unfolding near(4) using near(1) by simp
next
  case close
  show ?thesis unfolding close(5) using close(1) by simp
next
  case refine
  show ?thesis unfolding refine(5) using refine(1) by simp
qed



subsection \<open>The passes of a run\<close>

lemma substep_caseI:
  assumes "find_next_step_max p
       (set_dir p (lp_geo s)
          (ch_dir (make_chord (ode_pos (lp_state s))
             (ode_pos (dr_state (advance drv (remaining s) (lp_state s)))))))
       (ch_length (make_chord (ode_pos (lp_state s))
             (ode_pos (dr_state (advance drv (remaining s) (lp_state s)))))
          + delta_intersection drv) = Some (lin, geo)"
  shows "substep_case p drv s
           = Some (substep_branch drv s (advance drv (remaining s) (lp_state s))
                (make_chord (ode_pos (lp_state s))
                   (ode_pos (dr_state (advance drv (remaining s) (lp_state s))))) lin)"
  using assms by (simp add: substep_case_def trial_def Let_def)

lemma substep_branch_cases:
  "substep_branch drv s sub chord lin = accepted \<longleftrightarrow> \<not> boundary lin"
  "substep_branch drv s sub chord lin = halved \<longleftrightarrow>
     boundary lin \<and> boundary (lp_result s) \<and> distance lin < bump_distance drv"
  "substep_branch drv s sub chord lin = landed \<longleftrightarrow>
     boundary lin \<and> \<not> (boundary (lp_result s) \<and> distance lin < bump_distance drv) \<and>
     dr_step sub * distance lin \<le> minimum_step drv * ch_length chord"
  "substep_branch drv s sub chord lin = intercepted \<longleftrightarrow>
     boundary lin \<and> \<not> (boundary (lp_result s) \<and> distance lin < bump_distance drv) \<and>
     \<not> dr_step sub * distance lin \<le> minimum_step drv * ch_length chord \<and>
     is_intercept_close (ode_pos (lp_state s)) (ch_dir chord) (distance lin)
       (ode_pos (dr_state sub)) (delta_intersection drv)"
  "substep_branch drv s sub chord lin = shortened \<longleftrightarrow>
     boundary lin \<and> \<not> (boundary (lp_result s) \<and> distance lin < bump_distance drv) \<and>
     \<not> dr_step sub * distance lin \<le> minimum_step drv * ch_length chord \<and>
     \<not> is_intercept_close (ode_pos (lp_state s)) (ch_dir chord) (distance lin)
       (ode_pos (dr_state sub)) (delta_intersection drv)"
  by (simp_all add: substep_branch_def)

text \<open>What one pass does to the substep counter and to the momentum, by its case.\<close>

lemma substep_counter:
  assumes "substep p drv step s = Some s'"
  shows "remaining_substeps s' =
           remaining_substeps s - (if movement_committed p drv s then 1 else 0)"
proof -
  let ?sub = "advance drv (remaining s) (lp_state s)"
  let ?chord = "make_chord (ode_pos (lp_state s)) (ode_pos (dr_state ?sub))"
  from assms obtain lin geo where
    f: "find_next_step_max p (set_dir p (lp_geo s) (ch_dir ?chord))
       (ch_length ?chord + delta_intersection drv) = Some (lin, geo)"
    and s': "s' = dispatch p drv step s ?sub ?chord lin geo"
    by (rule substepE)
  have m: "movement_committed p drv s \<longleftrightarrow> \<not> boundary lin"
    by (simp add: movement_committed_def substep_caseI [OF f] substep_branch_cases)
  show ?thesis unfolding s' m by (simp add: dispatch_substeps)
qed

lemma substep_momentum:
  assumes "substep p drv step s = Some s'"
  shows "ode_mom (lp_state s') =
           (if momentum_committed p drv s then ode_mom (dr_state (trial drv s))
            else ode_mom (lp_state s))"
proof -
  let ?sub = "advance drv (remaining s) (lp_state s)"
  let ?chord = "make_chord (ode_pos (lp_state s)) (ode_pos (dr_state ?sub))"
  from assms obtain lin geo where
    f: "find_next_step_max p (set_dir p (lp_geo s) (ch_dir ?chord))
       (ch_length ?chord + delta_intersection drv) = Some (lin, geo)"
    and s': "s' = dispatch p drv step s ?sub ?chord lin geo"
    by (rule substepE)
  have m: "momentum_committed p drv s \<longleftrightarrow>
      substep_branch drv s ?sub ?chord lin = accepted \<or>
      substep_branch drv s ?sub ?chord lin = landed \<or>
      substep_branch drv s ?sub ?chord lin = intercepted"
    by (simp add: momentum_committed_def substep_caseI [OF f])
  show ?thesis
  proof (cases rule: dispatch_cases [of lin p drv step s ?sub ?chord geo])
    case accept
    from accept(1) have "momentum_committed p drv s" by (simp add: m substep_branch_cases)
    then show ?thesis unfolding s' accept(2) by (simp add: trial_def)
  next
    case reentry
    from reentry(1-3) have "\<not> momentum_committed p drv s" by (simp add: m substep_branch_cases)
    then show ?thesis unfolding s' reentry(4) by simp
  next
    case near
    from near(1-3) have "momentum_committed p drv s" by (simp add: m substep_branch_cases)
    then show ?thesis unfolding s' near(4) by (simp add: trial_def)
  next
    case close
    from close(1-4) have "momentum_committed p drv s" by (simp add: m substep_branch_cases)
    then show ?thesis unfolding s' close(5) by (simp add: trial_def)
  next
    case refine
    from refine(1-4) have "\<not> momentum_committed p drv s" by (simp add: m substep_branch_cases)
    then show ?thesis unfolding s' refine(5) by simp
  qed
qed

text \<open>The list of passes starts with the state at entry, and each of its states is taken to
  the next one by the body of the loop.\<close>

lemma substep_passes_chain:
  assumes run: "substep_passes p drv step s = Some ss"
  shows "ss \<noteq> [] \<and> hd ss = s \<and>
         (\<forall>i. Suc i < length ss \<longrightarrow> substep p drv step (ss ! i) = Some (ss ! Suc i))"
proof -
  let ?Q = "\<lambda>a ss. ss \<noteq> [] \<and> hd ss = a \<and>
         (\<forall>i. Suc i < length ss \<longrightarrow> substep p drv step (ss ! i) = Some (ss ! Suc i))"
  have "p = p \<and> drv = drv \<and> step = step \<longrightarrow> ?Q s ss"
  proof (rule substep_passes.raw_induct
      [where P = "\<lambda>p' drv' step' a ss. p' = p \<and> drv' = drv \<and> step' = step \<longrightarrow> ?Q a ss",
       OF _ run])
    fix f p' drv' step' a y
    assume IH: "\<And>p' drv' step' a ss. f p' drv' step' a = Some ss \<Longrightarrow>
        p' = p \<and> drv' = drv \<and> step' = step \<longrightarrow> ?Q a ss"
      and hyp: "do {
          s' \<leftarrow> substep p' drv' step' a;
          if minimum_step drv' \<le> remaining s' \<and> 0 < remaining_substeps s'
          then do { ss \<leftarrow> f p' drv' step' s'; Some (a # ss) } else Some [a]
        } = Some y"
    show "p' = p \<and> drv' = drv \<and> step' = step \<longrightarrow> ?Q a y"
    proof (intro impI)
      assume e: "p' = p \<and> drv' = drv \<and> step' = step"
      from hyp e obtain b where b: "substep p drv step a = Some b"
        and r: "(if minimum_step drv \<le> remaining b \<and> 0 < remaining_substeps b
                 then do { ss \<leftarrow> f p drv step b; Some (a # ss) } else Some [a]) = Some y"
        by (auto simp: bind_eq_Some_conv)
      show "?Q a y"
      proof (cases "minimum_step drv \<le> remaining b \<and> 0 < remaining_substeps b")
        case True
        with r obtain ss' where f: "f p drv step b = Some ss'" and y: "y = a # ss'"
          by (auto simp: bind_eq_Some_conv)
        from IH [OF f] have q: "?Q b ss'" by simp
        have "substep p drv step (y ! i) = Some (y ! Suc i)" if "Suc i < length y" for i
        proof (cases i)
          case 0
          from q have "ss' ! 0 = b" by (simp add: hd_conv_nth [symmetric])
          with 0 b show ?thesis unfolding y by simp
        next
          case (Suc j)
          with that q show ?thesis unfolding y by simp
        qed
        then show ?thesis unfolding y by simp
      next
        case False
        with r have "y = [a]" by simp
        then show ?thesis by simp
      qed
    qed
  qed
  then show ?thesis by simp
qed

text \<open>A run of the loop that returns has a list of passes; the substep counter has gone
  down by the number of passes that committed a movement, and the momentum is the one of
  the last trial that was committed.\<close>

lemma substep_loop_passes:
  assumes run: "substep_loop p drv step s = Some s'"
  shows "\<exists>ss. substep_passes p drv step s = Some ss \<and>
           remaining_substeps s' =
             remaining_substeps s - int (length (filter (movement_committed p drv) ss)) \<and>
           ode_mom (lp_state s') =
             (if filter (momentum_committed p drv) ss = [] then ode_mom (lp_state s)
              else ode_mom (dr_state (trial drv (last (filter (momentum_committed p drv) ss)))))"
proof -
  let ?Q = "\<lambda>a b ss. substep_passes p drv step a = Some ss \<and>
           remaining_substeps b =
             remaining_substeps a - int (length (filter (movement_committed p drv) ss)) \<and>
           ode_mom (lp_state b) =
             (if filter (momentum_committed p drv) ss = [] then ode_mom (lp_state a)
              else ode_mom (dr_state (trial drv (last (filter (momentum_committed p drv) ss)))))"
  have "p = p \<and> drv = drv \<and> step = step \<longrightarrow> (\<exists>ss. ?Q s s' ss)"
  proof (rule substep_loop.raw_induct
      [where P = "\<lambda>p' drv' step' a b. p' = p \<and> drv' = drv \<and> step' = step \<longrightarrow> (\<exists>ss. ?Q a b ss)",
       OF _ run])
    fix f p' drv' step' a y
    assume IH: "\<And>p' drv' step' a b. f p' drv' step' a = Some b \<Longrightarrow>
        p' = p \<and> drv' = drv \<and> step' = step \<longrightarrow> (\<exists>ss. ?Q a b ss)"
      and hyp: "do {
          s' \<leftarrow> substep p' drv' step' a;
          if minimum_step drv' \<le> remaining s' \<and> 0 < remaining_substeps s'
          then f p' drv' step' s' else Some s'
        } = Some y"
    show "p' = p \<and> drv' = drv \<and> step' = step \<longrightarrow> (\<exists>ss. ?Q a y ss)"
    proof (intro impI)
      assume e: "p' = p \<and> drv' = drv \<and> step' = step"
      from hyp e obtain b where b: "substep p drv step a = Some b"
        and r: "(if minimum_step drv \<le> remaining b \<and> 0 < remaining_substeps b
                 then f p drv step b else Some b) = Some y"
        by (auto simp: bind_eq_Some_conv)
      note c = substep_counter [OF b] and m = substep_momentum [OF b]
      show "\<exists>ss. ?Q a y ss"
      proof (cases "minimum_step drv \<le> remaining b \<and> 0 < remaining_substeps b")
        case True
        with r have "f p drv step b = Some y" by simp
        from IH [OF this] obtain ss where q: "?Q b y ss" by blast
        from b True q have "substep_passes p drv step a = Some (a # ss)"
          by (subst substep_passes.simps) simp
        moreover from q c have "remaining_substeps y =
             remaining_substeps a - int (length (filter (movement_committed p drv) (a # ss)))"
          by simp
        moreover from q m have "ode_mom (lp_state y) =
             (if filter (momentum_committed p drv) (a # ss) = [] then ode_mom (lp_state a)
              else ode_mom (dr_state (trial drv
                     (last (filter (momentum_committed p drv) (a # ss))))))"
          by simp
        ultimately show ?thesis by blast
      next
        case False
        with r have y: "y = b" by simp
        from b False have "substep_passes p drv step a = Some [a]"
          by (subst substep_passes.simps) auto
        with c m show ?thesis unfolding y by (intro exI [of _ "[a]"]) simp
      qed
    qed
  qed
  then show ?thesis by simp
qed

text \<open>
  Claim C5 as stated fails for the example: the loop is one trial substep, which is
  retried with half the length and so not committed. The driver returned a momentum of
  magnitude 2 (its last and only output), and the momentum after the propagation has
  magnitude 1, the one at entry.
\<close>

theorem momentum_counterexample:
  "substep_loop ex_params ex_driver 3 (initial_substepping ex_params ex_propagator 3)
     = substep ex_params ex_driver 3 (initial_substepping ex_params ex_propagator 3) \<and>
   remaining (initial_substepping ex_params ex_propagator 3) = 3 \<and>
   lp_state (initial_substepping ex_params ex_propagator 3) = fp_state ex_propagator \<and>
   propagate ex_params ex_propagator 3 \<noteq> None \<and>
   norm3 (ode_mom (dr_state (advance ex_driver 3 (fp_state ex_propagator)))) = 2 \<and>
   norm3 (ode_mom (fp_state (snd (the (propagate ex_params ex_propagator 3))))) = 1"
proof -
  from ex_propagate obtain fp' where
    h: "propagate ex_params ex_propagator 3 = Some (\<lparr>distance = 2, boundary = False\<rparr>, fp')"
    and m: "ode_mom (fp_state fp') = (1, 0, 0)"
    by blast
  have "norm3 (ode_mom (dr_state (advance ex_driver 3 (fp_state ex_propagator)))) = 2"
    by (simp add: ex_driver_fields ex_propagator_eq)
  moreover have "norm3 (ode_mom (fp_state (snd (the (propagate ex_params ex_propagator 3))))) = 1"
    by (simp add: h m)
  moreover have "propagate ex_params ex_propagator 3 \<noteq> None" by (simp add: h)
  moreover have "remaining (initial_substepping ex_params ex_propagator 3) = 3"
    unfolding ex_initial by simp
  moreover have "lp_state (initial_substepping ex_params ex_propagator 3)
      = fp_state ex_propagator"
    unfolding ex_initial by (simp add: ex_propagator_eq)
  moreover have "substep_loop ex_params ex_driver 3
      (initial_substepping ex_params ex_propagator 3)
     = substep ex_params ex_driver 3 (initial_substepping ex_params ex_propagator 3)"
    by (simp only: ex_loop ex_substep)
  ultimately show ?thesis by blast
qed

text \<open>
  Claim C5, amended. The momentum of the ODE state after a propagation is the momentum
  that the driver returned for the last trial substep that was committed (a substep with
  no boundary on its chord, or one that ends the step on a boundary), and the momentum at
  entry when no trial was committed: the momentum of a trial that is tried again is
  dropped, and no operation of the navigator changes the momentum. The direction of the
  navigator at the end is that momentum normalised.
\<close>

theorem momentum_of_last_committed_trial:
  assumes "propagate p fp step = Some (res, fp')"
  shows "\<exists>ss. substep_passes p (fp_driver fp) step (initial_substepping p fp step) = Some ss \<and>
           ode_mom (fp_state fp') =
             (if filter (momentum_committed p (fp_driver fp)) ss = [] then ode_mom (fp_state fp)
              else ode_mom (dr_state (trial (fp_driver fp)
                     (last (filter (momentum_committed p (fp_driver fp)) ss))))) \<and>
           dir p (fp_geo fp') = normalize_direction (ode_mom (fp_state fp'))"
proof -
  from assms obtain s where
    l: "substep_loop p (fp_driver fp) step (initial_substepping p fp step) = Some s"
    and f: "fp' = fp\<lparr>fp_state := lp_state (finish_step p (fp_driver fp) step s),
                      fp_geo := lp_geo (finish_step p (fp_driver fp) step s)\<rparr>"
    by (auto simp: propagate_def bind_eq_Some_conv Let_def)
  have i: "ode_mom (lp_state (initial_substepping p fp step)) = ode_mom (fp_state fp)"
    by (simp add: initial_substepping_def)
  from substep_loop_passes [OF l] obtain ss where
    "substep_passes p (fp_driver fp) step (initial_substepping p fp step) = Some ss"
    and "ode_mom (lp_state s) =
             (if filter (momentum_committed p (fp_driver fp)) ss = [] then ode_mom (fp_state fp)
              else ode_mom (dr_state (trial (fp_driver fp)
                     (last (filter (momentum_committed p (fp_driver fp)) ss)))))"
    unfolding i by blast
  then show ?thesis
    unfolding f by (intro exI [of _ ss]) (simp add: finish_step_mom finish_step_dir)
qed

subsection \<open>A committed substep of the example driver\<close>

lemma ex_half_initial:
  "initial_substepping ex_params ex_propagator (1 / 2) =
     \<lparr>lp_result = \<lparr>distance = 0, boundary = True\<rparr>, remaining = 1 / 2,
      remaining_substeps = 128,
      lp_state = \<lparr>ode_pos = (1, 2, 3), ode_mom = (1, 0, 0)\<rparr>, lp_geo = ex_view 0\<rparr>"
  by (simp add: initial_substepping_def ex_propagator_eq max_substeps_def is_on_boundary_def
      surface_id_def make_lsa_def lsa_index_def ex_view_def ex_states_def ex_params_def)

lemma ex_half_chord:
  "make_chord (1, 2, 3) ((3 / 2, 2, 3)) = \<lparr>ch_length = 1 / 2, ch_dir = (1, 0, 0)\<rparr>"
  by (simp add: make_chord_def Let_def)

lemma ex_half_find:
  "find_next_step_max ex_params (ex_view 0) (3 / 5)
     = Some (\<lparr>distance = 3 / 5, boundary = False\<rparr>, (ex_view 0)\<lparr>next_step := 3 / 5\<rparr>)"
proof -
  have i: "find_next_step_impl ex_params (ex_view 0) (3 / 5)
     = Some ((ex_view 0)\<lparr>next_step := 3 / 5\<rparr>)"
    unfolding find_next_step_impl_def ex_view_fields
    by (subst find_next_step_loop.simps)
       (simp add: Let_def ex_view_def ex_states_def ex_params_def)
  show ?thesis
    unfolding find_next_step_max_def ex_view_fields
    by (simp add: i ex_view_fields has_next_step_def on_surface_def no_surface_def)
qed

lemma ex_half_advance:
  "advance ex_driver (1 / 2) \<lparr>ode_pos = (1, 2, 3), ode_mom = (1, 0, 0)\<rparr>
      = \<lparr>dr_state = \<lparr>ode_pos = (3 / 2, 2, 3), ode_mom = (2, 0, 0)\<rparr>, dr_step = 1 / 2\<rparr>"
  by (simp add: ex_driver_def)

lemma ex_half_substep:
  "substep ex_params ex_driver (1 / 2) (initial_substepping ex_params ex_propagator (1 / 2))
     = Some \<lparr>lp_result = \<lparr>distance = 1 / 2, boundary = False\<rparr>, remaining = 0,
             remaining_substeps = 127,
             lp_state = \<lparr>ode_pos = (3 / 2, 2, 3), ode_mom = (2, 0, 0)\<rparr>,
             lp_geo = move_internal ex_params ((ex_view 0)\<lparr>next_step := 3 / 5\<rparr>)
                        (3 / 2, 2, 3)\<rparr>"
proof -
  have "substep ex_params ex_driver (1 / 2) (initial_substepping ex_params ex_propagator (1 / 2))
     = Some (dispatch ex_params ex_driver (1 / 2)
          (initial_substepping ex_params ex_propagator (1 / 2))
          \<lparr>dr_state = \<lparr>ode_pos = (3 / 2, 2, 3), ode_mom = (2, 0, 0)\<rparr>, dr_step = 1 / 2\<rparr>
          \<lparr>ch_length = 1 / 2, ch_dir = (1, 0, 0)\<rparr> \<lparr>distance = 3 / 5, boundary = False\<rparr>
          ((ex_view 0)\<lparr>next_step := 3 / 5\<rparr>))"
    unfolding substep_def Let_def ex_half_initial
    by (simp add: ex_half_advance ex_half_chord ex_set_dir ex_driver_fields ex_half_find)
  then show ?thesis
    by (simp add: dispatch_accept ex_half_initial)
qed

lemma ex_half_case:
  "momentum_committed ex_params ex_driver (initial_substepping ex_params ex_propagator (1 / 2))"
proof -
  have "substep_case ex_params ex_driver (initial_substepping ex_params ex_propagator (1 / 2))
      = Some accepted"
    unfolding substep_case_def trial_def Let_def ex_half_initial
    by (simp add: ex_half_advance ex_half_chord ex_set_dir ex_driver_fields ex_half_find
        substep_branch_def)
  then show ?thesis by (simp add: momentum_committed_def)
qed

lemma ex_half_run:
  "substep_loop ex_params ex_driver (1 / 2) (initial_substepping ex_params ex_propagator (1 / 2))
     \<noteq> None"
  "substep_passes ex_params ex_driver (1 / 2)
     (initial_substepping ex_params ex_propagator (1 / 2))
     = Some [initial_substepping ex_params ex_propagator (1 / 2)]"
  by (subst substep_loop.simps, simp add: ex_half_substep ex_driver_fields)
     (subst substep_passes.simps, simp add: ex_half_substep ex_driver_fields)

theorem momentum_of_last_committed_trial_witness:
  "\<exists>res fp'. propagate ex_params ex_propagator (1 / 2) = Some (res, fp') \<and>
     substep_passes ex_params ex_driver (1 / 2)
       (initial_substepping ex_params ex_propagator (1 / 2))
       = Some [initial_substepping ex_params ex_propagator (1 / 2)] \<and>
     momentum_committed ex_params ex_driver
       (initial_substepping ex_params ex_propagator (1 / 2)) \<and>
     ode_mom (dr_state (trial ex_driver (initial_substepping ex_params ex_propagator (1 / 2))))
       = (2, 0, 0) \<and>
     ode_mom (fp_state fp') = (2, 0, 0) \<and>
     dir ex_params (fp_geo fp') = (1, 0, 0)"
proof -
  let ?s0 = "initial_substepping ex_params ex_propagator (1 / 2)"
  have d: "fp_driver ex_propagator = ex_driver" by (rule ex_driver_fields(6))
  from ex_half_run(1) obtain res fp' where
    h: "propagate ex_params ex_propagator (1 / 2) = Some (res, fp')"
    by (auto simp: propagate_def d Let_def)
  have t: "ode_mom (dr_state (trial ex_driver ?s0)) = (2, 0, 0)"
    by (simp add: trial_def ex_half_initial ex_half_advance)
  from momentum_of_last_committed_trial [OF h] obtain ss where
    ss: "substep_passes ex_params ex_driver (1 / 2) ?s0 = Some ss"
    and m: "ode_mom (fp_state fp') =
             (if filter (momentum_committed ex_params ex_driver) ss = []
              then ode_mom (fp_state ex_propagator)
              else ode_mom (dr_state (trial ex_driver
                     (last (filter (momentum_committed ex_params ex_driver) ss)))))"
    and n: "dir ex_params (fp_geo fp') = normalize_direction (ode_mom (fp_state fp'))"
    unfolding d by blast
  from ss have e: "ss = [?s0]" by (simp add: ex_half_run(2))
  have m': "ode_mom (fp_state fp') = (2, 0, 0)"
    unfolding m e by (simp add: ex_half_case t)
  have "dir ex_params (fp_geo fp') = (1, 0, 0)"
    unfolding n m' by (simp add: Let_def)
  with h ex_half_run(2) ex_half_case t m' show ?thesis by blast
qed

subsection \<open>Chords\<close>

lemma norm3_nonneg: "0 \<le> norm3 v"
  by (cases v) (simp add: norm3_def)






subsection \<open>The search of the track view ends\<close>










subsection \<open>Termination of the substep loop\<close>











subsection \<open>The line driver on the example geometry\<close>

lemma plane_params_fields:
  "max_level (plane_params D) = 2" "top_universe_id (plane_params D) = Some 0"
  "daughter (plane_params D) = (\<lambda>_. None)" "global_surface (plane_params D) = (\<lambda>u s. s)"
  "local_volume (plane_params D) = (\<lambda>x. x)"
  "tr_intersect (plane_params D) u ls m
     = \<lparr>is_surface = \<lparr>os_id = Some 3, os_sense = inside\<rparr>, is_distance = D\<rparr>"
  by (simp_all add: plane_params_def ex_params_def)

lemma free_view_fields:
  "make_lsa (plane_params D) (ex_free_view\<lparr>next_step := a, next_surface := b\<rparr>) = 0"
  "states (ex_free_view\<lparr>next_step := a, next_surface := b\<rparr>) = set_surf 0 None ex_states"
  "thread (ex_free_view\<lparr>next_step := a, next_surface := b\<rparr>) = 0"
  "ex_free_view\<lparr>next_step := 0, next_surface := no_surface\<rparr> = ex_free_view"
  by (simp_all add: ex_free_view_def upd_states_def make_lsa_def lsa_index_def ex_view_def
      ex_states_def plane_params_fields set_surf_def)

lemma free_view_state:
  "st_pos (set_surf 0 None ex_states) 0 = (1, 2, 3)"
  "st_dir (set_surf 0 None ex_states) 0 = (1, 0, 0)"
  "st_surf (set_surf 0 None ex_states) 0 = None"
  "st_boundary (set_surf 0 None ex_states) 0 = exiting"
  "st_universe (set_surf 0 None ex_states) 0 = Some 0"
  "st_level (set_surf 0 None ex_states) 0 = 0"
  by (simp_all add: set_surf_def ex_states_def)

lemma line_propagator_eq:
  "line_propagator D q dl = \<lparr>fp_driver = line_driver q dl, fp_geo = ex_free_view,
                     fp_state = \<lparr>ode_pos = (1, 2, 3), ode_mom = (1, 0, 0)\<rparr>\<rparr>"
  using free_view_fields(1,2) [where a = 0 and b = no_surface]
  by (simp add: line_propagator_def make_field_propagator_def pos_def dir_def
      free_view_fields(4) free_view_state)

lemma line_driver_fields:
  "minimum_step (line_driver q dl) = 1 / 2" "delta_intersection (line_driver q dl) = dl"
  "bump_distance (line_driver q dl) = 1 / 2"
  "advance (line_driver q dl) r \<lparr>ode_pos = (1, 2, 3), ode_mom = (1, 0, 0)\<rparr>
     = \<lparr>dr_state = \<lparr>ode_pos = (1 + r, 2, 3), ode_mom = (1, 0, 0)\<rparr>, dr_step = q * r\<rparr>"
  by (simp_all add: line_driver_def bump_distance_def Let_def)

lemma line_initial:
  "initial_substepping (plane_params D) (line_propagator D q dl) step =
     \<lparr>lp_result = \<lparr>distance = 0, boundary = False\<rparr>, remaining = step,
      remaining_substeps = 128,
      lp_state = \<lparr>ode_pos = (1, 2, 3), ode_mom = (1, 0, 0)\<rparr>, lp_geo = ex_free_view\<rparr>"
  using free_view_fields(1,2) [where a = 0 and b = no_surface]
  by (simp add: initial_substepping_def line_propagator_eq max_substeps_def is_on_boundary_def
      surface_id_def free_view_fields(4) free_view_state)

lemma line_chord:
  "0 < r \<Longrightarrow> make_chord (1, 2, 3) (1 + r, 2, 3) = \<lparr>ch_length = r, ch_dir = (1, 0, 0)\<rparr>"
  by (simp add: make_chord_def Let_def)

lemma line_set_dir:
  "set_dir (plane_params D) (ex_free_view\<lparr>next_step := a, next_surface := b\<rparr>) (1, 0, 0)
     = ex_free_view\<lparr>next_step := 0, next_surface := b\<rparr>"
proof -
  let ?v = "ex_free_view\<lparr>next_step := a, next_surface := b\<rparr>"
  have off: "\<not> is_on_boundary (plane_params D) ?v"
    by (simp add: is_on_boundary_def surface_id_def free_view_fields free_view_state)
  have d: "set_dir_lsa 0 (1, 0, 0) (set_surf 0 None ex_states) = set_surf 0 None ex_states"
    by (simp add: set_dir_lsa_def set_surf_def ex_states_def fun_upd_idem_iff)
  have "upd_states (set_dir_lsa 0 (1, 0, 0)) ?v = ?v"
    by (simp add: upd_states_def ex_free_view_def ex_view_def d)
  then show ?thesis
    unfolding set_dir_def Let_def free_view_fields using off
    by (simp add: clear_next_step_def)
qed

lemma line_find:
  assumes "0 < D" and "D < m"
  shows "find_next_step_max (plane_params D)
           (ex_free_view\<lparr>next_step := 0, next_surface := b\<rparr>) m
     = Some (\<lparr>distance = D, boundary = True\<rparr>,
             ex_free_view\<lparr>next_step := D,
                           next_surface := \<lparr>os_id = Some 3, os_sense = inside\<rparr>\<rparr>)"
proof -
  have i: "find_next_step_impl (plane_params D)
             (ex_free_view\<lparr>next_step := 0, next_surface := b\<rparr>) m
     = Some (ex_free_view\<lparr>next_step := D,
                           next_surface := \<lparr>os_id = Some 3, os_sense = inside\<rparr>\<rparr>)"
    unfolding find_next_step_impl_def free_view_fields free_view_state
    using assms
    by (subst find_next_step_loop.simps) (simp add: Let_def plane_params_fields)
  have c: "clear_next_step (ex_free_view\<lparr>next_step := 0, next_surface := b\<rparr>)
      = ex_free_view\<lparr>next_step := 0, next_surface := b\<rparr>"
    by (simp add: clear_next_step_def)
  show ?thesis
    unfolding find_next_step_max_def free_view_fields free_view_state
    using assms by (simp add: i c has_next_step_def on_surface_def)
qed

lemma line_substep:
  assumes "lp_state s = \<lparr>ode_pos = (1, 2, 3), ode_mom = (1, 0, 0)\<rparr>"
    and "lp_geo s = ex_free_view\<lparr>next_step := a, next_surface := b\<rparr>"
    and "0 < remaining s" and "0 < D" and "D < remaining s + dl"
  shows "substep (plane_params D) (line_driver q dl) step s
     = Some (dispatch (plane_params D) (line_driver q dl) step s
          \<lparr>dr_state = \<lparr>ode_pos = (1 + remaining s, 2, 3), ode_mom = (1, 0, 0)\<rparr>,
             dr_step = q * remaining s\<rparr>
          \<lparr>ch_length = remaining s, ch_dir = (1, 0, 0)\<rparr> \<lparr>distance = D, boundary = True\<rparr>
          (ex_free_view\<lparr>next_step := D,
                         next_surface := \<lparr>os_id = Some 3, os_sense = inside\<rparr>\<rparr>))"
  unfolding substep_def Let_def assms(1,2) line_driver_fields
  by (simp add: line_chord [OF assms(3)] line_set_dir line_find [OF assms(4,5)])

lemma line_miss:
  "calc_miss_distance (1, 2, 3) (1, 0, 0) D (1 + r, 2, 3) = \<bar>D - r\<bar>"
  by (simp add: calc_miss_distance_def)

subsection \<open>A driver that reports more than the request\<close>

text \<open>The line driver with \<open>q > 1 / 2\<close> on a request of 1, with the boundary at distance 1:
  the chord ends on the boundary, the intercept is taken, and the distance of the result
  is the reported substep \<open>q\<close>.\<close>

lemma line_intercept_substep:
  assumes "1 / 2 < q" and "0 < dl"
  shows "substep (plane_params 1) (line_driver q dl) 1
           (initial_substepping (plane_params 1) (line_propagator 1 q dl) 1)
     = Some \<lparr>lp_result = \<lparr>distance = q, boundary = True\<rparr>, remaining = 0,
             remaining_substeps = 128,
             lp_state = \<lparr>ode_pos = (1, 2, 3), ode_mom = (1, 0, 0)\<rparr>,
             lp_geo = ex_free_view\<lparr>next_step := 1,
                         next_surface := \<lparr>os_id = Some 3, os_sense = inside\<rparr>\<rparr>\<rparr>"
proof -
  let ?s = "initial_substepping (plane_params 1) (line_propagator 1 q dl) 1"
  have s: "lp_state ?s = \<lparr>ode_pos = (1, 2, 3), ode_mom = (1, 0, 0)\<rparr>"
    "lp_geo ?s = ex_free_view\<lparr>next_step := 0, next_surface := no_surface\<rparr>"
    "remaining ?s = 1" "lp_result ?s = \<lparr>distance = 0, boundary = False\<rparr>"
    "remaining_substeps ?s = 128"
    by (simp_all add: line_initial free_view_fields(4))
  have r: "0 < remaining ?s" "(0::real) < 1" "1 < remaining ?s + dl"
    using assms(2) by (simp_all add: s)
  show ?thesis
    unfolding line_substep [OF s(1,2) r] s(3)
    by (subst dispatch_close)
       (use assms in \<open>simp_all add: s line_driver_fields is_intercept_close_def
          line_miss [of 1 1, simplified] calc_miss_distance_def\<close>)
qed

lemma line_intercept_result:
  assumes "1 / 2 < q" and "0 < dl"
  shows "map_option fst (propagate (plane_params 1) (line_propagator 1 q dl) 1)
     = Some \<lparr>distance = q, boundary = True\<rparr>"
    and "map_option (\<lambda>r. is_on_boundary (plane_params 1) (fp_geo (snd r)))
           (propagate (plane_params 1) (line_propagator 1 q dl) 1) = Some True"
proof -
  let ?s = "\<lparr>lp_result = \<lparr>distance = q, boundary = True\<rparr>, remaining = 0,
             remaining_substeps = 128,
             lp_state = \<lparr>ode_pos = (1, 2, 3), ode_mom = (1, 0, 0)\<rparr>,
             lp_geo = ex_free_view\<lparr>next_step := 1,
                         next_surface := \<lparr>os_id = Some 3, os_sense = inside\<rparr>\<rparr>\<rparr>"
  have d: "fp_driver (line_propagator 1 q dl) = line_driver q dl"
    by (simp add: line_propagator_eq)
  have l: "substep_loop (plane_params 1) (line_driver q dl) 1
       (initial_substepping (plane_params 1) (line_propagator 1 q dl) 1) = Some ?s"
    by (subst substep_loop.simps)
       (simp add: line_intercept_substep [OF assms] line_driver_fields)
  have f: "0 < distance (lp_result ?s)" "boundary (lp_result ?s)"
    using assms by simp_all
  note r = finish_step_landed [OF f, of "plane_params 1" "line_driver q dl" 1]
  have p: "propagate (plane_params 1) (line_propagator 1 q dl) 1
     = Some (lp_result (finish_step (plane_params 1) (line_driver q dl) 1 ?s),
             (line_propagator 1 q dl)
               \<lparr>fp_state := lp_state (finish_step (plane_params 1) (line_driver q dl) 1 ?s),
                 fp_geo := lp_geo (finish_step (plane_params 1) (line_driver q dl) 1 ?s)\<rparr>)"
    by (simp add: propagate_def d l Let_def)
  show "map_option fst (propagate (plane_params 1) (line_propagator 1 q dl) 1)
     = Some \<lparr>distance = q, boundary = True\<rparr>"
    unfolding p r(1) by simp
  show "map_option (\<lambda>r. is_on_boundary (plane_params 1) (fp_geo (snd r)))
           (propagate (plane_params 1) (line_propagator 1 q dl) 1) = Some True"
    unfolding p r(2) by (simp add: set_dir_on_boundary move_to_boundary_on on_surface_def)
qed

lemma line_step_admitted:
  assumes "0 < step" and "1 \<le> q" and "q - 1 < rel * q"
  shows "step_admitted rel (line_driver q dl)
           (initial_substepping (plane_params D) (line_propagator D q dl) step)"
proof -
  have a: "\<bar>step - q * step\<bar> = (q - 1) * step"
    using assms(1,2) by (simp add: abs_if algebra_simps mult_le_cancel_right1)
  have b: "\<bar>q * step\<bar> = q * step"
    using assms(1,2) by simp
  have "(q - 1) * step < rel * q * step"
    using assms(1,3) by simp
  then have "soft_equal rel (q * step) step"
    unfolding soft_equal_def a b by (simp add: mult.assoc)
  then show ?thesis
    by (simp add: step_admitted_def trial_def line_initial line_driver_fields)
qed










text \<open>
  Claim C1. The result of a propagation should have \<open>0 < distance \<le> step\<close>, as the source
  asserts on return. A driver may report a substep above the request within the tolerance
  of \<^verbatim>\<open>soft_equal\<close>; the case that takes the intercept adds the reported substep less the
  miss distance to the distance, without the minimum with the remaining length that the
  other two cases take. For a track inside a volume with a boundary at distance 1 along
  its direction, a request of 1, and a driver that moves the track by 1 and reports
  \<open>1 + 1 / 10 ^ 13\<close>, the trial is admitted by the assertion of the source on the substep,
  the miss distance is 0, and the propagation returns on the boundary with a distance
  above the request.
\<close>

theorem propagate_exceeds_step:
  "step_admitted (1 / 10 ^ 12) (line_driver (1 + 1 / 10 ^ 13) (1 / 10))
     (initial_substepping (plane_params 1)
        (line_propagator 1 (1 + 1 / 10 ^ 13) (1 / 10)) 1) \<and>
   calc_miss_distance (1, 2, 3) (1, 0, 0) 1 (2, 2, 3) = 0 \<and>
   map_option fst (propagate (plane_params 1)
                     (line_propagator 1 (1 + 1 / 10 ^ 13) (1 / 10)) 1)
     = Some \<lparr>distance = 1 + 1 / 10 ^ 13, boundary = True\<rparr> \<and>
   map_option (\<lambda>r. is_on_boundary (plane_params 1) (fp_geo (snd r)))
     (propagate (plane_params 1) (line_propagator 1 (1 + 1 / 10 ^ 13) (1 / 10)) 1)
     = Some True \<and>
   \<not> 1 + 1 / 10 ^ 13 \<le> (1::real)"
proof -
  have q: "1 / 2 < (1 + 1 / 10 ^ 13 :: real)" "(0::real) < 1 / 10" by simp_all
  have a: "(0::real) < 1" "(1::real) \<le> 1 + 1 / 10 ^ 13"
    "(1 + 1 / 10 ^ 13 :: real) - 1 < 1 / 10 ^ 12 * (1 + 1 / 10 ^ 13)"
    by simp_all
  have m: "calc_miss_distance (1, 2, 3) (1, 0, 0) 1 (2, 2, 3) = 0"
    by (simp add: calc_miss_distance_def)
  have n: "\<not> 1 + 1 / 10 ^ 13 \<le> (1::real)" by simp
  from line_step_admitted [OF a] line_intercept_result [OF q] m n show ?thesis by blast
qed

end
